theory Spec2Isabelle
  imports Main "HOL-Library.Word" "HOL-Library.Signed_Division"
begin

unbundle bit_operations_syntax

section \<open>The USB-DVG frame driver (zvgFrame.c)\<close>

text \<open>
  The driver keeps one command buffer of 32-bit big-endian words, the colour and the
  device point it emitted last, the path length of the frame and the clip window, all in
  file-level variables. The embedding passes them as a record.

  Machine integers. A C \<open>int\<close>, \<open>int32_t\<close> or \<open>uint32_t\<close> is a \<open>32 word\<close>: addition,
  subtraction and multiplication wrap around modulo \<open>2 ^ 32\<close> (what the compiled code
  does on signed overflow), comparisons of \<open>int\<close> read the word with \<open>sint\<close>.

  What stops the program is a fault: a division by zero and the quotient \<open>INT_MIN / -1\<close>,
  on which the division instruction traps. Two other operations have no value in C, and
  the compiled program goes on after them; so does the embedding. The conversion of a
  square root that is not a number to \<open>uint32_t\<close> gives 0. A store past the end of
  \<open>s_cmd_buf\<close> goes to the memory behind the array; the embedding keeps the byte at its
  index, leaves the other variables as they are, and marks them (\<open>overrun\<close>). What the
  store has overwritten the source does not say, so a run of calls ends at marked
  variables, with \<open>BufferOverrun\<close>.
\<close>

type_synonym i32 = "32 word"
type_synonym u32 = "32 word"
type_synonym u16 = "16 word"
type_synonym u8 = "8 word"

datatype fault = DivByZero | DivOverflow | BufferOverrun

subsection \<open>Constants\<close>

definition CMD_BUF_SIZE :: nat where "CMD_BUF_SIZE = 0x20000"
definition FLAG_COMPLETE :: u32 where "FLAG_COMPLETE = 0x0"
definition FLAG_RGB :: u32 where "FLAG_RGB = 0x1"
definition FLAG_XY :: u32 where "FLAG_XY = 0x2"
definition FLAG_EXIT :: u32 where "FLAG_EXIT = 0x7"
definition FLAG_FRAME :: u32 where "FLAG_FRAME = 0x4"
definition FLAG_QUALITY :: u32 where "FLAG_QUALITY = 0x3"

definition DVG_RES_MAX :: i32 where "DVG_RES_MAX = 4095"
definition DVG_RENDER_QUALITY :: u32 where "DVG_RENDER_QUALITY = 5"

definition TOP :: u32 where "TOP = 8"
definition BOTTOM :: u32 where "BOTTOM = 4"
definition RIGHT :: u32 where "RIGHT = 2"
definition LEFT :: u32 where "LEFT = 1"

definition INT_MIN :: i32 where "INT_MIN = - 0x80000000"

text \<open>
  \<open>X_MIN\<close>, \<open>X_MAX\<close>, \<open>Y_MIN\<close> and \<open>Y_MAX\<close>, the bounds of the logical coordinates, come
  from a header that is not part of the file; they are a parameter of every function
  that uses \<open>CONVX\<close> or \<open>CONVY\<close>.
\<close>

record limits =
  X_MIN :: i32
  X_MAX :: i32
  Y_MIN :: i32
  Y_MAX :: i32

subsection \<open>The driver's variables\<close>

text \<open>
  \<open>s_cmd_offs\<close> only ever counts up from 0 or 4, by one for every byte stored, so it is
  a \<open>nat\<close>. \<open>s_cmd_buf\<close> is indexed by all offsets: the indices below \<open>CMD_BUF_SIZE\<close> are
  the array, the indices from \<open>CMD_BUF_SIZE\<close> on are the memory behind it. \<open>s_serial_fd\<close>
  is \<open>True\<close> when the handle is not \<open>INVALID_HANDLE_VALUE\<close>. \<open>overrun\<close> is not a variable
  of the source: it is \<open>True\<close> once a byte has been stored behind the array.
\<close>

record zvg =
  s_cmd_offs :: nat
  s_cmd_buf :: "nat \<Rightarrow> u8"
  s_last_r :: u8
  s_last_g :: u8
  s_last_b :: u8
  s_vector_length :: i32
  s_last_x :: i32
  s_last_y :: i32
  s_serial_fd :: bool
  s_xmin :: i32
  s_xmax :: i32
  s_ymin :: i32
  s_ymax :: i32
  overrun :: bool

text \<open>The variables as the C runtime initialises them: zero, and no handle.\<close>

definition zvg_static :: zvg where
  "zvg_static = \<lparr> s_cmd_offs = 0, s_cmd_buf = (\<lambda>_. 0),
     s_last_r = 0, s_last_g = 0, s_last_b = 0, s_vector_length = 0,
     s_last_x = 0, s_last_y = 0, s_serial_fd = False,
     s_xmin = 0, s_xmax = 0, s_ymin = 0, s_ymax = 0, overrun = False \<rparr>"

subsection \<open>Integer arithmetic of C\<close>

text \<open>\<open>a / b\<close> on \<open>int\<close>: the quotient truncated towards zero.\<close>

definition c_div :: "i32 \<Rightarrow> i32 \<Rightarrow> fault + i32" where
  "c_div a b =
     (if b = 0 then Inl DivByZero
      else if a = INT_MIN \<and> b = - 1 then Inl DivOverflow
      else Inr (word_of_int (sint a sdiv sint b)))"

text \<open>
  \<open>(uint32_t)sqrt(n)\<close> for \<open>0 \<le> n < 2 ^ 31\<close>: the square root in double precision is
  correctly rounded and the conversion truncates, which gives the integer square root.
\<close>

function isqrt :: "nat \<Rightarrow> nat" where
  "isqrt n =
     (if n < 2 then n
      else (let r = 2 * isqrt (n div 4)
            in if (r + 1) * (r + 1) \<le> n then r + 1 else r))"
  by pat_completeness auto
termination
  by (relation "measure (\<lambda>n. n)") auto

declare isqrt.simps [simp del]

subsection \<open>vector\_length and cmd\_reset\<close>

text \<open>
  \<open>len = (uint32_t)sqrt((dx*dx)+(dy*dy))\<close>. The sum is an \<open>int\<close>. When it has wrapped
  around to a negative number, \<open>sqrt\<close> answers a NaN, the function has no test for it, and
  the conversion of the NaN in the compiled code gives 0: the length is 0 then.
\<close>

definition vector_length :: "i32 \<Rightarrow> i32 \<Rightarrow> i32 \<Rightarrow> i32 \<Rightarrow> i32" where
  "vector_length x0 y0 x1 y1 =
     (let dx = x1 - x0;
          dy = y1 - y0;
          sq = (dx * dx) + (dy * dy)
      in if sq <s 0 then 0
         else word_of_nat (isqrt (unat sq)))"

definition cmd_reset :: "zvg \<Rightarrow> zvg" where
  "cmd_reset s =
     s\<lparr> s_cmd_offs := 4, s_vector_length := 0,
        s_last_x := INT_MIN, s_last_y := INT_MIN,
        s_last_r := 0, s_last_g := 0, s_last_b := 0 \<rparr>"

subsection \<open>Stores into the command buffer\<close>

text \<open>
  \<open>s_cmd_buf[s_cmd_offs++] = b\<close>. The statement has no test of its own: at an offset
  from \<open>CMD_BUF_SIZE\<close> on the byte is stored behind the array, the offset moves on, and
  the variables are marked. The result has the type of the calls that can trap; a store
  never does.
\<close>

definition put_byte :: "u8 \<Rightarrow> zvg \<Rightarrow> fault + zvg" where
  "put_byte b s =
     (if s_cmd_offs s < CMD_BUF_SIZE
      then Inr (s\<lparr> s_cmd_buf := (s_cmd_buf s)(s_cmd_offs s := b),
                   s_cmd_offs := s_cmd_offs s + 1 \<rparr>)
      else Inr (s\<lparr> s_cmd_buf := (s_cmd_buf s)(s_cmd_offs s := b),
                   s_cmd_offs := s_cmd_offs s + 1, overrun := True \<rparr>))"

definition and_then :: "fault + 'a \<Rightarrow> ('a \<Rightarrow> fault + 'b) \<Rightarrow> fault + 'b" where
  "and_then r f = (case r of Inl e \<Rightarrow> Inl e | Inr v \<Rightarrow> f v)"

text \<open>The four stores \<open>cmd >> 24\<close>, \<open>cmd >> 16\<close>, \<open>cmd >> 8\<close>, \<open>cmd >> 0\<close> of every append.\<close>

definition put_cmd :: "u32 \<Rightarrow> zvg \<Rightarrow> fault + zvg" where
  "put_cmd cmd s =
     and_then (put_byte (ucast (drop_bit 24 cmd)) s) (\<lambda>s.
     and_then (put_byte (ucast (drop_bit 16 cmd)) s) (\<lambda>s.
     and_then (put_byte (ucast (drop_bit 8 cmd)) s) (\<lambda>s.
     put_byte (ucast (drop_bit 0 cmd)) s)))"

text \<open>
  Every append of a command word in the source is guarded by the same test,
  \<open>s_cmd_offs <= CMD_BUF_SIZE - 8\<close>, and does nothing when the test fails.
\<close>

definition emit :: "u32 \<Rightarrow> zvg \<Rightarrow> fault + zvg" where
  "emit cmd s = (if s_cmd_offs s \<le> CMD_BUF_SIZE - 8 then put_cmd cmd s else Inr s)"

subsection \<open>The serial port\<close>

text \<open>
  The port is a collaborator: a device state \<open>'d\<close> and a write that takes the bytes
  and answers the number of bytes written, or a number that is not positive when the
  write failed. \<open>serial_write\<close> answers \<open>result > 0\<close>.
\<close>

type_synonym 'd port = "'d \<Rightarrow> u8 list \<Rightarrow> int \<times> 'd"

definition serial_write :: "'d port \<Rightarrow> (nat \<Rightarrow> u8) \<Rightarrow> nat \<Rightarrow> nat \<Rightarrow> 'd \<Rightarrow> i32 \<times> 'd" where
  "serial_write wr buf offset sz d =
     (let (result, d') = wr d (map buf [offset ..< offset + sz])
      in (if result > 0 then 1 else 0, d'))"

datatype open_outcome = Opened | NoPort | NoCommState

definition serial_open :: "open_outcome \<Rightarrow> zvg \<Rightarrow> i32 \<times> zvg" where
  "serial_open oc s =
     (let result = (if oc = Opened then 0 else 4)
      in (result, cmd_reset (s\<lparr> s_serial_fd := (oc \<noteq> NoPort) \<rparr>)))"

definition serial_close :: "'d port \<Rightarrow> zvg \<Rightarrow> 'd \<Rightarrow> fault + (i32 \<times> zvg \<times> 'd)" where
  "serial_close wr s d =
     (if s_serial_fd s
      then (let cmd = push_bit 29 FLAG_EXIT
            in and_then (put_cmd cmd (s\<lparr> s_cmd_offs := 0 \<rparr>)) (\<lambda>s.
                 let (r, d') = serial_write wr (s_cmd_buf s) 0 (s_cmd_offs s) d
                 in Inr (0, s\<lparr> s_serial_fd := False \<rparr>, d')))
      else Inr (- 1, s\<lparr> s_serial_fd := False \<rparr>, d))"

text \<open>
  The transmission loop of \<open>serial_send\<close>. \<open>size\<close> and \<open>offset\<close> are \<open>uint32_t\<close> in the
  source; they start at \<open>s_cmd_offs\<close> and 0. The guard of the appends keeps \<open>s_cmd_offs\<close>
  at or below \<open>CMD_BUF_SIZE - 4\<close>, so it is at most four bytes above the size of the
  buffer when the loop is reached; \<open>size\<close> and \<open>offset\<close> are \<open>nat\<close> here (\<open>sz\<close> for
  \<open>size\<close>) and the casts of \<open>MIN\<close>, which do nothing below \<open>2\<^sup>3\<^sup>1\<close>, are left out. The
  loop reads the bytes below the offset, also those behind the array.
\<close>

function send_loop :: "'d port \<Rightarrow> (nat \<Rightarrow> u8) \<Rightarrow> nat \<Rightarrow> nat \<Rightarrow> i32 \<Rightarrow> 'd \<Rightarrow> i32 \<times> 'd" where
  "send_loop wr buf sz offset result d =
     (if sz \<noteq> 0
      then (let chunk = min sz 1024;
                (result, d) = serial_write wr buf offset chunk d
            in send_loop wr buf (sz - chunk) (offset + chunk) result d)
      else (result, d))"
  by pat_completeness auto
termination
  by (relation "measure (\<lambda>(wr, buf, sz, offset, result, d). sz)") auto

declare send_loop.simps [simp del]

text \<open>
  The first half of \<open>serial_send\<close>: the frame word goes into the four bytes that
  \<open>cmd_reset\<close> left free, the quality word and the complete word are appended.
\<close>

definition send_prepare :: "zvg \<Rightarrow> fault + zvg" where
  "send_prepare s =
     (let cmd = push_bit 29 FLAG_FRAME OR s_vector_length s;
          s = s\<lparr> s_cmd_buf := (s_cmd_buf s)
                  (0 := ucast (drop_bit 24 cmd), 1 := ucast (drop_bit 16 cmd),
                   2 := ucast (drop_bit 8 cmd), 3 := ucast (drop_bit 0 cmd)) \<rparr>
      in and_then (put_cmd (push_bit 29 FLAG_QUALITY OR DVG_RENDER_QUALITY) s) (\<lambda>s.
         put_cmd (push_bit 29 FLAG_COMPLETE) s))"

definition serial_send :: "'d port \<Rightarrow> zvg \<Rightarrow> 'd \<Rightarrow> fault + (i32 \<times> zvg \<times> 'd)" where
  "serial_send wr s d =
     and_then (send_prepare s) (\<lambda>s.
       let (result, d') = send_loop wr (s_cmd_buf s) (s_cmd_offs s) 0 (- 1) d
       in Inr (result, cmd_reset s, d'))"

subsection \<open>Clipping\<close>

definition compute_code :: "zvg \<Rightarrow> i32 \<Rightarrow> i32 \<Rightarrow> u32" where
  "compute_code s x y =
     (let code = 0;
          code = (if x <s s_xmin s then code OR LEFT
                  else if s_xmax s <s x then code OR RIGHT else code);
          code = (if y <s s_ymin s then code OR BOTTOM
                  else if s_ymax s <s y then code OR TOP else code)
      in code)"

text \<open>
  The variables of the loop of \<open>line_clip\<close>: \<open>x\<close>, \<open>y\<close>, the two points and their
  codes, in this order.
\<close>

type_synonym clip_vars = "i32 \<times> i32 \<times> i32 \<times> i32 \<times> i32 \<times> i32 \<times> u32 \<times> u32"

text \<open>
  The intersection of the segment with the boundary that \<open>code_out\<close> names: the chain
  of tests TOP, BOTTOM, RIGHT, LEFT. When no test holds, \<open>x\<close> and \<open>y\<close> keep their values.
\<close>

definition intersect ::
    "zvg \<Rightarrow> u32 \<Rightarrow> i32 \<Rightarrow> i32 \<Rightarrow> i32 \<Rightarrow> i32 \<Rightarrow> i32 \<Rightarrow> i32 \<Rightarrow> fault + (i32 \<times> i32)" where
  "intersect s code_out x y x1 y1 x2 y2 =
     (if code_out AND TOP \<noteq> 0
      then and_then (c_div ((x2 - x1) * (s_ymax s - y1)) (y2 - y1))
             (\<lambda>q. Inr (x1 + q, s_ymax s))
      else if code_out AND BOTTOM \<noteq> 0
      then and_then (c_div ((x2 - x1) * (s_ymin s - y1)) (y2 - y1))
             (\<lambda>q. Inr (x1 + q, s_ymin s))
      else if code_out AND RIGHT \<noteq> 0
      then and_then (c_div ((y2 - y1) * (s_xmax s - x1)) (x2 - x1))
             (\<lambda>q. Inr (s_xmax s, y1 + q))
      else if code_out AND LEFT \<noteq> 0
      then and_then (c_div ((y2 - y1) * (s_xmin s - x1)) (x2 - x1))
             (\<lambda>q. Inr (s_xmin s, y1 + q))
      else Inr (x, y))"

text \<open>One run of the last branch of the loop: intersect, then replace a point.\<close>

definition clip_iter :: "zvg \<Rightarrow> clip_vars \<Rightarrow> fault + clip_vars" where
  "clip_iter s v =
     (case v of (x, y, x1, y1, x2, y2, code1, code2) \<Rightarrow>
      let code_out = (if code1 \<noteq> 0 then code1 else code2)
      in and_then (intersect s code_out x y x1 y1 x2 y2)
           (\<lambda>(x, y).
              if code_out = code1
              then Inr (x, y, x, y, x2, y2, compute_code s x y, code2)
              else Inr (x, y, x1, y1, x, y, code1, compute_code s x y)))"

text \<open>
  The loop \<open>while (1)\<close>. It has no bound in the source, so a run that never leaves it
  is the value \<open>None\<close>. The result is \<open>accept\<close> and the two points.
\<close>

partial_function (option) clip_loop ::
    "zvg \<Rightarrow> clip_vars \<Rightarrow> (fault + (u32 \<times> i32 \<times> i32 \<times> i32 \<times> i32)) option" where
  "clip_loop s v =
     (case v of (x, y, x1, y1, x2, y2, code1, code2) \<Rightarrow>
      if code1 = 0 \<and> code2 = 0 then Some (Inr (1, x1, y1, x2, y2))
      else if code1 AND code2 \<noteq> 0 then Some (Inr (0, x1, y1, x2, y2))
      else (case clip_iter s v of
              Inl e \<Rightarrow> Some (Inl e)
            | Inr v' \<Rightarrow> clip_loop s v'))"

definition line_clip ::
    "zvg \<Rightarrow> i32 \<Rightarrow> i32 \<Rightarrow> i32 \<Rightarrow> i32 \<Rightarrow> (fault + (u32 \<times> i32 \<times> i32 \<times> i32 \<times> i32)) option" where
  "line_clip s x1 y1 x2 y2 =
     clip_loop s (0, 0, x1, y1, x2, y2, compute_code s x1 y1, compute_code s x2 y2)"

subsection \<open>The calls of the interface\<close>

definition zvgFrameOpen :: "open_outcome \<Rightarrow> zvg \<Rightarrow> i32 \<times> zvg" where
  "zvgFrameOpen oc s = serial_open oc s"

definition zvgFrameClose :: "'d port \<Rightarrow> zvg \<Rightarrow> 'd \<Rightarrow> fault + (zvg \<times> 'd)" where
  "zvgFrameClose wr s d = and_then (serial_close wr s d) (\<lambda>(r, s, d). Inr (s, d))"

definition zvgFrameSetClipWin :: "i32 \<Rightarrow> i32 \<Rightarrow> i32 \<Rightarrow> i32 \<Rightarrow> zvg \<Rightarrow> zvg" where
  "zvgFrameSetClipWin xMin yMin xMax yMax s =
     s\<lparr> s_xmin := xMin, s_ymin := yMin, s_xmax := xMax, s_ymax := yMax \<rparr>"

definition zvgFrameSetRGB15 :: "u8 \<Rightarrow> u8 \<Rightarrow> u8 \<Rightarrow> zvg \<Rightarrow> fault + zvg" where
  "zvgFrameSetRGB15 red green blue s =
     (let r = (push_bit 3 (ucast red) :: u16);
          r = (if r > 255 then 255 else r);
          g = (push_bit 3 (ucast green) :: u16);
          g = (if g > 255 then 255 else g);
          b = (push_bit 3 (ucast blue) :: u16);
          b = (if b > 255 then 255 else b);
          s = s\<lparr> s_last_r := ucast r, s_last_g := ucast g, s_last_b := ucast b \<rparr>;
          cmd = push_bit 29 FLAG_RGB OR push_bit 16 (ucast r AND 0xff)
                  OR push_bit 8 (ucast g AND 0xff) OR (ucast b AND 0xff)
      in emit cmd s)"

definition CONVX :: "limits \<Rightarrow> i32 \<Rightarrow> fault + i32" where
  "CONVX lim x = c_div ((x - X_MIN lim) * DVG_RES_MAX) (X_MAX lim - X_MIN lim)"

definition CONVY :: "limits \<Rightarrow> i32 \<Rightarrow> fault + i32" where
  "CONVY lim y = c_div ((y - Y_MIN lim) * DVG_RES_MAX) (Y_MAX lim - Y_MIN lim)"

text \<open>The body of \<open>zvgFrameVector\<close> once \<open>line_clip\<close> has accepted the segment.\<close>

definition vector_accepted :: "limits \<Rightarrow> i32 \<Rightarrow> i32 \<Rightarrow> i32 \<Rightarrow> i32 \<Rightarrow> zvg \<Rightarrow> fault + zvg" where
  "vector_accepted lim xStart yStart xEnd yEnd s =
     and_then (CONVX lim xStart) (\<lambda>xs.
     and_then (CONVY lim yStart) (\<lambda>ys.
     and_then (CONVX lim xEnd) (\<lambda>xe.
     and_then (CONVY lim yEnd) (\<lambda>ye.
       let xs = (if DVG_RES_MAX <s xs then DVG_RES_MAX else xs);
           xs = (if xs <s 0 then 0 else xs);
           ys = (if DVG_RES_MAX <s ys then DVG_RES_MAX else ys);
           ys = (if ys <s 0 then 0 else ys);
           s = s\<lparr> s_vector_length :=
                    s_vector_length s + vector_length (s_last_x s) (s_last_y s) xs ys \<rparr>;
           s = s\<lparr> s_vector_length := s_vector_length s + vector_length xs ys xe ye \<rparr>
       in and_then
            (if xStart \<noteq> s_last_x s \<or> yStart \<noteq> s_last_y s
             then (let blank = 1;
                       cmd = push_bit 29 FLAG_XY OR push_bit 28 (blank AND 0x1)
                               OR push_bit 14 (xs AND 0x3fff) OR (ys AND 0x3fff)
                   in emit cmd s)
             else Inr s) (\<lambda>s.
       let blank = (if s_last_r s = 0 \<and> s_last_g s = 0 \<and> s_last_b s = 0 then 1 else 0);
           cmd = push_bit 29 FLAG_XY OR push_bit 28 (blank AND 0x1)
                   OR push_bit 14 (xe AND 0x3fff) OR (ye AND 0x3fff)
       in and_then (emit cmd s) (\<lambda>s.
       Inr (s\<lparr> s_last_x := xe, s_last_y := ye \<rparr>)))))))"

definition zvgFrameVector ::
    "limits \<Rightarrow> i32 \<Rightarrow> i32 \<Rightarrow> i32 \<Rightarrow> i32 \<Rightarrow> zvg \<Rightarrow> (fault + (u32 \<times> zvg)) option" where
  "zvgFrameVector lim xStart yStart xEnd yEnd s =
     (case line_clip s xStart yStart xEnd yEnd of
        None \<Rightarrow> None
      | Some (Inl e) \<Rightarrow> Some (Inl e)
      | Some (Inr (accept, xStart, yStart, xEnd, yEnd)) \<Rightarrow>
          if accept \<noteq> 0
          then Some (and_then (vector_accepted lim xStart yStart xEnd yEnd s) (\<lambda>s. Inr (0, s)))
          else Some (Inr (0, s)))"

definition zvgFrameSend :: "'d port \<Rightarrow> zvg \<Rightarrow> 'd \<Rightarrow> fault + (u32 \<times> zvg \<times> 'd)" where
  "zvgFrameSend wr s d = and_then (serial_send wr s d) (\<lambda>(r, s, d). Inr (0, s, d))"


subsection \<open>Sequences of calls\<close>

datatype call =
    Open open_outcome
  | SetClipWin i32 i32 i32 i32
  | SetRGB15 u8 u8 u8
  | Vector i32 i32 i32 i32
  | Send
  | Close

text \<open>
  One call on the driver and its port. A call that traps has a fault for its result,
  a call that does not return has none.
\<close>

fun do_call :: "limits \<Rightarrow> 'd port \<Rightarrow> call \<Rightarrow> zvg \<times> 'd \<Rightarrow> (fault + zvg \<times> 'd) option" where
  "do_call lim wr (Open oc) (s, d) = Some (Inr (snd (zvgFrameOpen oc s), d))"
| "do_call lim wr (SetClipWin xMin yMin xMax yMax) (s, d) =
     Some (Inr (zvgFrameSetClipWin xMin yMin xMax yMax s, d))"
| "do_call lim wr (SetRGB15 red green blue) (s, d) =
     Some (and_then (zvgFrameSetRGB15 red green blue s) (\<lambda>s. Inr (s, d)))"
| "do_call lim wr (Vector xStart yStart xEnd yEnd) (s, d) =
     (case zvgFrameVector lim xStart yStart xEnd yEnd s of
        None \<Rightarrow> None
      | Some r \<Rightarrow> Some (and_then r (\<lambda>(r, s). Inr (s, d))))"
| "do_call lim wr Send (s, d) =
     Some (and_then (zvgFrameSend wr s d) (\<lambda>(r, s, d). Inr (s, d)))"
| "do_call lim wr Close (s, d) = Some (zvgFrameClose wr s d)"

text \<open>
  A run of calls. A fault ends it, and so does a call that does not return. It also
  ends, with \<open>BufferOverrun\<close>, at variables that are marked: a call before has stored
  behind the array, and the source does not say what lies there.
\<close>

fun run :: "limits \<Rightarrow> 'd port \<Rightarrow> call list \<Rightarrow> zvg \<times> 'd \<Rightarrow> (fault + zvg \<times> 'd) option" where
  "run lim wr [] (s, d) = (if overrun s then Some (Inl BufferOverrun) else Some (Inr (s, d)))"
| "run lim wr (c # cs) (s, d) =
     (if overrun s then Some (Inl BufferOverrun)
      else (case do_call lim wr c (s, d) of
              None \<Rightarrow> None
            | Some (Inl e) \<Rightarrow> Some (Inl e)
            | Some (Inr w') \<Rightarrow> run lim wr cs w'))"

subsection \<open>What the properties are stated with\<close>

text \<open>A port that accepts every write whole and keeps the writes in order.\<close>

definition rec_port :: "(u8 list) list port" where
  "rec_port d bytes = (int (length bytes), d @ [bytes])"

text \<open>The bytes a run has put on a recording port; none when the run did not return.\<close>

definition sent :: "(fault + zvg \<times> (u8 list) list) option \<Rightarrow> u8 list" where
  "sent r = (case r of Some (Inr (s, d)) \<Rightarrow> concat d | _ \<Rightarrow> [])"

definition colour_of :: "fault + zvg \<Rightarrow> (u8 \<times> u8 \<times> u8) option" where
  "colour_of r =
     (case r of Inl e \<Rightarrow> None | Inr s \<Rightarrow> Some (s_last_r s, s_last_g s, s_last_b s))"

text \<open>A command word on the wire, most significant byte first.\<close>

definition word_bytes :: "u32 \<Rightarrow> u8 list" where
  "word_bytes w =
     [ucast (drop_bit 24 w), ucast (drop_bit 16 w), ucast (drop_bit 8 w), ucast w]"

text \<open>The split of a byte sequence into pieces of at most \<open>n\<close> bytes, in order.\<close>

function chunks :: "nat \<Rightarrow> 'a list \<Rightarrow> 'a list list" where
  "chunks n xs = (if n = 0 \<or> xs = [] then [] else take n xs # chunks n (drop n xs))"
  by pat_completeness auto
termination
  by (relation "measure (\<lambda>(n, xs). length xs)") auto

declare chunks.simps [simp del]

text \<open>The bytes of the buffer below the write offset.\<close>

definition frame_bytes :: "zvg \<Rightarrow> u8 list" where
  "frame_bytes s = map (s_cmd_buf s) [0 ..< s_cmd_offs s]"

text \<open>
  The variables after the four stores of an append, the mark apart, and after the store
  of the frame word.
\<close>

definition append_cmd :: "u32 \<Rightarrow> zvg \<Rightarrow> zvg" where
  "append_cmd cmd s =
     s\<lparr> s_cmd_buf := (s_cmd_buf s)
               (s_cmd_offs s := ucast (drop_bit 24 cmd),
                s_cmd_offs s + 1 := ucast (drop_bit 16 cmd),
                s_cmd_offs s + 2 := ucast (drop_bit 8 cmd),
                s_cmd_offs s + 3 := ucast cmd),
             s_cmd_offs := s_cmd_offs s + 4 \<rparr>"

definition header_cmd :: "u32 \<Rightarrow> zvg \<Rightarrow> zvg" where
  "header_cmd cmd s =
     s\<lparr> s_cmd_buf := (s_cmd_buf s)
         (0 := ucast (drop_bit 24 cmd), 1 := ucast (drop_bit 16 cmd),
          2 := ucast (drop_bit 8 cmd), 3 := ucast cmd) \<rparr>"

text \<open>
  The command words of the wire format as the specification lists them: the tag in the
  top three bits, the payload below.
\<close>

definition encodeColor :: "u32 \<Rightarrow> u32 \<Rightarrow> u32 \<Rightarrow> u32" where
  "encodeColor r g b =
     push_bit 29 FLAG_RGB OR push_bit 16 (r AND 0xFF) OR push_bit 8 (g AND 0xFF) OR (b AND 0xFF)"

definition encodeMove :: "u32 \<Rightarrow> u32 \<Rightarrow> u32 \<Rightarrow> u32" where
  "encodeMove x y blank =
     push_bit 29 FLAG_XY OR push_bit 28 (blank AND 1) OR push_bit 14 (x AND 0x3FFF)
       OR (y AND 0x3FFF)"

definition encodeQuality :: "u32 \<Rightarrow> u32" where
  "encodeQuality level = push_bit 29 FLAG_QUALITY OR level"

definition encodeFrameLength :: "u32 \<Rightarrow> u32" where
  "encodeFrameLength len = push_bit 29 FLAG_FRAME OR len"

definition encodeComplete :: u32 where
  "encodeComplete = push_bit 29 FLAG_COMPLETE"

text \<open>Logical coordinates from 0 to 1000 on both axes, and the scenario of the specification.\<close>

definition lim1000 :: limits where
  "lim1000 = \<lparr> X_MIN = 0, X_MAX = 1000, Y_MIN = 0, Y_MAX = 1000 \<rparr>"

definition scenario :: "call list" where
  "scenario =
     [Open Opened, SetClipWin 0 0 1000 1000, SetRGB15 31 0 0, Vector 0 0 500 500, Send]"

text \<open>The variables after \<open>zvgFrameOpen\<close> and \<open>zvgFrameSetClipWin\<close> on a fresh driver.\<close>

definition st_open :: "i32 \<Rightarrow> i32 \<Rightarrow> i32 \<Rightarrow> i32 \<Rightarrow> zvg" where
  "st_open xMin yMin xMax yMax =
     \<lparr> s_cmd_offs = 4, s_cmd_buf = (\<lambda>_. 0),
       s_last_r = 0, s_last_g = 0, s_last_b = 0, s_vector_length = 0,
       s_last_x = INT_MIN, s_last_y = INT_MIN, s_serial_fd = True,
       s_xmin = xMin, s_xmax = xMax, s_ymin = yMin, s_ymax = yMax, overrun = False \<rparr>"

text \<open>What a run ends with: the variables, when it returned without a fault.\<close>

definition final :: "(fault + zvg \<times> 'd) option \<Rightarrow> zvg option" where
  "final r = (case r of Some (Inr (s, d)) \<Rightarrow> Some s | _ \<Rightarrow> None)"

text \<open>Calls with a clip window twice as wide as the logical bounds, and two vectors in a row.\<close>

definition c4_calls :: "call list" where
  "c4_calls =
     [Open Opened, SetClipWin 0 0 2000 2000, SetRGB15 31 31 31, Vector 0 0 2000 2000]"

definition c2_calls :: "call list" where
  "c2_calls =
     [Open Opened, SetClipWin 0 0 1000 1000, SetRGB15 31 31 31, Vector 0 0 500 500,
      Vector 500 500 600 600]"

text \<open>
  The variables when \<open>serial_send\<close> reaches its loop, the mark apart: the frame word in
  front, the quality and complete words behind.
\<close>

definition finalized :: "zvg \<Rightarrow> zvg" where
  "finalized s =
     append_cmd encodeComplete (append_cmd (encodeQuality DVG_RENDER_QUALITY)
       (header_cmd (encodeFrameLength (s_vector_length s)) s))"

text \<open>A port on which every write fails; it keeps what was submitted.\<close>

definition fail_port :: "(u8 list) list port" where
  "fail_port d bytes = (- 1, d @ [bytes])"

text \<open>The variables of the scenario after the colour and after the vector.\<close>

definition st_red :: zvg where
  "st_red = append_cmd (encodeColor 248 0 0)
     (st_open 0 0 1000 1000\<lparr> s_last_r := 248, s_last_g := 0, s_last_b := 0 \<rparr>)"

definition st_drawn :: zvg where
  "st_drawn = (append_cmd (encodeMove 2047 2047 0) (append_cmd (encodeMove 0 0 1) st_red))
     \<lparr> s_vector_length := 2894, s_last_x := 2047, s_last_y := 2047 \<rparr>"

text \<open>
  The variables after open, the clip window (0, 0, 50000, 0) and the vector (0, 0) to
  (46341, 0), with logical coordinates that are device coordinates. The square of 46341
  is above \<open>INT_MAX\<close>, so the length of this vector counts 0.
\<close>

definition st_wrapped :: zvg where
  "st_wrapped =
     (append_cmd (encodeMove 46341 0 1) (append_cmd (encodeMove 0 0 1) (st_open 0 0 50000 0)))
       \<lparr> s_vector_length := 0, s_last_x := 46341, s_last_y := 0 \<rparr>"

text \<open>The calls that only draw: they append to the frame and leave the port alone.\<close>

fun is_draw :: "call \<Rightarrow> bool" where
  "is_draw (SetRGB15 r g b) = True"
| "is_draw (Vector a b c d) = True"
| "is_draw _ = False"

text \<open>As many colour calls as the guard of the appends lets through, after open.\<close>

definition c1_calls :: "call list" where
  "c1_calls = Open Opened # replicate 32766 (SetRGB15 31 31 31)"

text \<open>
  Logical coordinates that are device coordinates, a clip window that reaches to 46340
  on the x axis, and 5794 times the same vector along it.
\<close>

definition lim4095 :: limits where
  "lim4095 = \<lparr> X_MIN = 0, X_MAX = 4095, Y_MIN = 0, Y_MAX = 4095 \<rparr>"

definition c5_calls :: "call list" where
  "c5_calls = Open Opened # SetClipWin 0 0 46340 0 # replicate 5794 (Vector 0 0 46340 0)"

definition far_window :: "zvg \<Rightarrow> bool" where
  "far_window s \<longleftrightarrow> s_xmin s = 0 \<and> s_ymin s = 0 \<and> s_xmax s = 46340 \<and> s_ymax s = 0"

subsection \<open>Clipping: what the properties are stated with\<close>

text \<open>
  A clip window 3000000000 wide, wider than \<open>INT_MAX\<close>, and the loop variables of
  \<open>line_clip\<close> that come back every two iterations for a segment across it. The word
  2147483648 is \<open>INT_MIN\<close>.
\<close>

definition cyc_win :: zvg where
  "cyc_win = zvgFrameSetClipWin (- 1500000000) (- 1) 1500000000 0 zvg_static"

definition on_cycle :: "clip_vars \<Rightarrow> bool" where
  "on_cycle v =
     (case v of (x, y, x1, y1, x2, y2, code1, code2) \<Rightarrow>
        x1 = 1500000000 \<and> y1 = - 1 \<and> code1 = 0 \<and>
        (x2 = - 1500000000 \<and> y2 = 1 \<and> code2 = 8 \<or> x2 = 2147483648 \<and> y2 = 0 \<and> code2 = 1))"

text \<open>
  Coordinates of at most 16384 in absolute value: differences stay below \<open>2\<^sup>1\<^sup>5\<close> and
  their products below \<open>2\<^sup>3\<^sup>1\<close>, so that no operation of \<open>line_clip\<close> wraps around.
\<close>

definition small :: "i32 \<Rightarrow> bool" where
  "small a \<longleftrightarrow> - 16384 \<le> sint a \<and> sint a \<le> 16384"

text \<open>\<open>m\<close> lies between \<open>p\<close> and \<open>q\<close>, in either order.\<close>

definition between :: "int \<Rightarrow> int \<Rightarrow> int \<Rightarrow> bool" where
  "between p m q \<longleftrightarrow> min p q \<le> m \<and> m \<le> max p q"

text \<open>An outcode that names the top or the bottom boundary.\<close>

definition vertical :: "u32 \<Rightarrow> bool" where
  "vertical c \<longleftrightarrow> c AND TOP \<noteq> 0 \<or> c AND BOTTOM \<noteq> 0"

text \<open>A clip window with small bounds and \<open>xmin \<le> xmax\<close>, \<open>ymin \<le> ymax\<close>.\<close>

definition window_small :: "zvg \<Rightarrow> bool" where
  "window_small s \<longleftrightarrow>
     small (s_xmin s) \<and> small (s_xmax s) \<and> small (s_ymin s) \<and> small (s_ymax s)
     \<and> s_xmin s \<le>s s_xmax s \<and> s_ymin s \<le>s s_ymax s"

text \<open>
  The two tests that leave the loop, and a measure on the pair of outcodes that every
  iteration without overflow decreases.
\<close>

definition clip_done :: "u32 \<Rightarrow> u32 \<Rightarrow> bool" where
  "clip_done code1 code2 \<longleftrightarrow> code1 = 0 \<and> code2 = 0 \<or> code1 AND code2 \<noteq> 0"

definition rank :: "u32 \<Rightarrow> nat" where
  "rank c = (if c = 0 then 0 else if vertical c then 2 else 1)"

definition clip_measure :: "u32 \<Rightarrow> u32 \<Rightarrow> nat" where
  "clip_measure code1 code2 =
     (if clip_done code1 code2 then 0 else 1 + 3 * rank code1 + rank code2)"

text \<open>The codes among the loop variables are the outcodes of the two points.\<close>

definition coded :: "zvg \<Rightarrow> clip_vars \<Rightarrow> bool" where
  "coded s v =
     (case v of (x, y, x1, y1, x2, y2, code1, code2) \<Rightarrow>
        code1 = compute_code s x1 y1 \<and> code2 = compute_code s x2 y2)"

text \<open>
  One iteration as the specification words it: the point is point 1 when its outcode is
  not zero and point 2 otherwise; the boundary is the first of TOP, BOTTOM, RIGHT, LEFT
  that the outcode of the point names; the intersection follows
  \<open>x = x1 + (x2 - x1) * (boundaryY - y1) / (y2 - y1)\<close> and its mirror image, the division
  truncating; the point is replaced and its outcode computed again.
\<close>

datatype boundary = BTop | BBottom | BRight | BLeft

fun boundary_bit :: "boundary \<Rightarrow> u32" where
  "boundary_bit BTop = TOP"
| "boundary_bit BBottom = BOTTOM"
| "boundary_bit BRight = RIGHT"
| "boundary_bit BLeft = LEFT"

definition spec_boundary :: "u32 \<Rightarrow> boundary option" where
  "spec_boundary code =
     find (\<lambda>b. code AND boundary_bit b \<noteq> 0) [BTop, BBottom, BRight, BLeft]"

definition trunc_quot :: "i32 \<Rightarrow> i32 \<Rightarrow> i32" where
  "trunc_quot n d = word_of_int (sgn (sint n) * sgn (sint d) * (\<bar>sint n\<bar> div \<bar>sint d\<bar>))"

fun spec_intersection :: "zvg \<Rightarrow> boundary \<Rightarrow> i32 \<Rightarrow> i32 \<Rightarrow> i32 \<Rightarrow> i32 \<Rightarrow> i32 \<times> i32" where
  "spec_intersection s BTop x1 y1 x2 y2 =
     (x1 + trunc_quot ((x2 - x1) * (s_ymax s - y1)) (y2 - y1), s_ymax s)"
| "spec_intersection s BBottom x1 y1 x2 y2 =
     (x1 + trunc_quot ((x2 - x1) * (s_ymin s - y1)) (y2 - y1), s_ymin s)"
| "spec_intersection s BRight x1 y1 x2 y2 =
     (s_xmax s, y1 + trunc_quot ((y2 - y1) * (s_xmax s - x1)) (x2 - x1))"
| "spec_intersection s BLeft x1 y1 x2 y2 =
     (s_xmin s, y1 + trunc_quot ((y2 - y1) * (s_xmin s - x1)) (x2 - x1))"

definition spec_replace ::
    "zvg \<Rightarrow> i32 \<Rightarrow> i32 \<Rightarrow> i32 \<Rightarrow> i32 \<Rightarrow> u32 \<Rightarrow> u32 \<Rightarrow> clip_vars option" where
  "spec_replace s x1 y1 x2 y2 code1 code2 =
     (let first = (code1 \<noteq> 0)
      in case spec_boundary (if first then code1 else code2) of
           None \<Rightarrow> None
         | Some b \<Rightarrow>
             (case spec_intersection s b x1 y1 x2 y2 of (xi, yi) \<Rightarrow>
                Some (if first then (xi, yi, xi, yi, x2, y2, compute_code s xi yi, code2)
                      else (xi, yi, x1, y1, xi, yi, code1, compute_code s xi yi))))"

section \<open>Properties\<close>

subsection \<open>The integer square root\<close>

text \<open>\<open>isqrt\<close> is the square root rounded down.\<close>

lemma isqrt_floor: "isqrt n * isqrt n \<le> n \<and> n < (isqrt n + 1) * (isqrt n + 1)"
proof (induction n rule: isqrt.induct)
  case (1 n)
  show ?case
  proof (cases "n < 2")
    case True
    then have "isqrt n = n" by (subst isqrt.simps) simp
    then show ?thesis using True by (cases n) auto
  next
    case False
    define m where "m = isqrt (n div 4)"
    from "1.IH" [OF False] have ih: "m * m \<le> n div 4" "n div 4 < (m + 1) * (m + 1)"
      by (simp_all add: m_def)
    have lo: "(2 * m) * (2 * m) \<le> n"
    proof -
      have "4 * (m * m) \<le> 4 * (n div 4)" using ih(1) by simp
      also have "\<dots> \<le> n" by simp
      finally show ?thesis by (simp add: algebra_simps)
    qed
    have hi: "n < (2 * m + 2) * (2 * m + 2)"
    proof -
      have "n div 4 + 1 \<le> (m + 1) * (m + 1)" using ih(2) by simp
      then have "4 * (n div 4 + 1) \<le> 4 * ((m + 1) * (m + 1))" by simp
      moreover have "n < 4 * (n div 4 + 1)" by presburger
      ultimately have "n < 4 * ((m + 1) * (m + 1))" by simp
      then show ?thesis by (simp add: algebra_simps)
    qed
    have e: "isqrt n = (if (2 * m + 1) * (2 * m + 1) \<le> n then 2 * m + 1 else 2 * m)"
      using False by (subst isqrt.simps) (simp add: Let_def m_def)
    show ?thesis
    proof (cases "(2 * m + 1) * (2 * m + 1) \<le> n")
      case True
      then show ?thesis using hi by (simp add: e algebra_simps)
    next
      case False
      then show ?thesis using lo by (simp add: e algebra_simps)
    qed
  qed
qed

subsection \<open>Stores and colours\<close>

lemma and_then_simps [simp]:
  "and_then (Inr v) f = f v" "and_then (Inl e) f = Inl e"
  by (simp_all add: and_then_def)

lemma INT_MIN_neq_0 [simp]: "INT_MIN \<noteq> 0" "0 \<noteq> INT_MIN"
  by (simp_all add: INT_MIN_def)

lemma put_cmd_append:
  "s_cmd_offs s + 4 \<le> CMD_BUF_SIZE \<Longrightarrow> put_cmd cmd s = Inr (append_cmd cmd s)"
  by (simp add: put_cmd_def put_byte_def and_then_def eval_nat_numeral append_cmd_def)

lemma put_cmd_store:
  "put_cmd cmd s =
     Inr (if s_cmd_offs s + 4 \<le> CMD_BUF_SIZE then append_cmd cmd s
          else (append_cmd cmd s)\<lparr> overrun := True \<rparr>)"
  by (simp add: put_cmd_def put_byte_def and_then_def eval_nat_numeral append_cmd_def)

lemma emit_eq:
  "emit cmd s = Inr (if s_cmd_offs s \<le> CMD_BUF_SIZE - 8 then append_cmd cmd s else s)"
  by (simp add: emit_def put_cmd_append CMD_BUF_SIZE_def)

lemma cmd_reset_overrun [simp]: "overrun (cmd_reset s) = overrun s"
  by (simp add: cmd_reset_def)

lemma unmarked [simp]: "\<not> overrun zvg_static" "\<not> overrun (st_open a b c d)"
  by (simp_all add: zvg_static_def st_open_def)

lemma append_cmd_fields [simp]:
  "s_cmd_offs (append_cmd cmd s) = s_cmd_offs s + 4"
  "s_last_r (append_cmd cmd s) = s_last_r s"
  "s_last_g (append_cmd cmd s) = s_last_g s"
  "s_last_b (append_cmd cmd s) = s_last_b s"
  "s_vector_length (append_cmd cmd s) = s_vector_length s"
  "s_last_x (append_cmd cmd s) = s_last_x s"
  "s_last_y (append_cmd cmd s) = s_last_y s"
  "s_serial_fd (append_cmd cmd s) = s_serial_fd s"
  "s_xmin (append_cmd cmd s) = s_xmin s"
  "s_xmax (append_cmd cmd s) = s_xmax s"
  "s_ymin (append_cmd cmd s) = s_ymin s"
  "s_ymax (append_cmd cmd s) = s_ymax s"
  "overrun (append_cmd cmd s) = overrun s"
  by (simp_all add: append_cmd_def)

lemma append_cmd_update:
  "append_cmd cmd (s\<lparr> s_last_r := r \<rparr>) = (append_cmd cmd s)\<lparr> s_last_r := r \<rparr>"
  "append_cmd cmd (s\<lparr> s_last_g := g \<rparr>) = (append_cmd cmd s)\<lparr> s_last_g := g \<rparr>"
  "append_cmd cmd (s\<lparr> s_last_b := b \<rparr>) = (append_cmd cmd s)\<lparr> s_last_b := b \<rparr>"
  "append_cmd cmd (s\<lparr> s_vector_length := l \<rparr>) = (append_cmd cmd s)\<lparr> s_vector_length := l \<rparr>"
  "append_cmd cmd (s\<lparr> s_last_x := x \<rparr>) = (append_cmd cmd s)\<lparr> s_last_x := x \<rparr>"
  "append_cmd cmd (s\<lparr> s_last_y := y \<rparr>) = (append_cmd cmd s)\<lparr> s_last_y := y \<rparr>"
  "append_cmd cmd (s\<lparr> overrun := m \<rparr>) = (append_cmd cmd s)\<lparr> overrun := m \<rparr>"
  by (simp_all add: append_cmd_def)

lemma frame_bytes_append_cmd [simp]:
  "frame_bytes (append_cmd cmd s) = frame_bytes s @ word_bytes cmd"
proof -
  have "[0 ..< s_cmd_offs s + 4] = [0 ..< s_cmd_offs s] @
      [s_cmd_offs s, s_cmd_offs s + 1, s_cmd_offs s + 2, s_cmd_offs s + 3]"
    by (simp add: eval_nat_numeral upt_rec [of "s_cmd_offs s"] upt_rec [of "Suc (s_cmd_offs s)"]
         upt_rec [of "Suc (Suc (s_cmd_offs s))"] upt_rec [of "Suc (Suc (Suc (s_cmd_offs s)))"] flip: upt_add_eq_append)
  then show ?thesis
    by (simp add: frame_bytes_def append_cmd_def word_bytes_def)
qed

lemma frame_bytes_update [simp]:
  "frame_bytes (s\<lparr> s_last_r := r \<rparr>) = frame_bytes s"
  "frame_bytes (s\<lparr> s_last_g := g \<rparr>) = frame_bytes s"
  "frame_bytes (s\<lparr> s_last_b := b \<rparr>) = frame_bytes s"
  "frame_bytes (s\<lparr> s_vector_length := l \<rparr>) = frame_bytes s"
  "frame_bytes (s\<lparr> s_last_x := x \<rparr>) = frame_bytes s"
  "frame_bytes (s\<lparr> s_last_y := y \<rparr>) = frame_bytes s"
  "frame_bytes (s\<lparr> overrun := m \<rparr>) = frame_bytes s"
  by (simp_all add: frame_bytes_def)


lemma header_cmd_fields [simp]:
  "s_cmd_offs (header_cmd cmd s) = s_cmd_offs s"
  "s_last_r (header_cmd cmd s) = s_last_r s"
  "s_last_g (header_cmd cmd s) = s_last_g s"
  "s_last_b (header_cmd cmd s) = s_last_b s"
  "s_vector_length (header_cmd cmd s) = s_vector_length s"
  "s_last_x (header_cmd cmd s) = s_last_x s"
  "s_last_y (header_cmd cmd s) = s_last_y s"
  "s_serial_fd (header_cmd cmd s) = s_serial_fd s"
  "s_xmin (header_cmd cmd s) = s_xmin s"
  "s_xmax (header_cmd cmd s) = s_xmax s"
  "s_ymin (header_cmd cmd s) = s_ymin s"
  "s_ymax (header_cmd cmd s) = s_ymax s"
  "overrun (header_cmd cmd s) = overrun s"
  by (simp_all add: header_cmd_def)

lemma frame_bytes_header_cmd:
  assumes "4 \<le> s_cmd_offs s"
  shows "frame_bytes (header_cmd cmd s) = word_bytes cmd @ drop 4 (frame_bytes s)"
proof -
  have four: "[0 ..< 4] = [0, 1, 2, 3::nat]"
    by (simp add: upt_rec)
  have "[0 ..< s_cmd_offs s] = [0 ..< 4] @ [4 ..< s_cmd_offs s]"
    using assms upt_add_eq_append [of 0 4 "s_cmd_offs s - 4"] by simp
  then have "[0 ..< s_cmd_offs s] = [0, 1, 2, 3] @ [4 ..< s_cmd_offs s]"
    using four by simp
  moreover have "map ((s_cmd_buf s)(0 := a, 1 := b, 2 := c, 3 := d)) [4 ..< s_cmd_offs s]
      = map (s_cmd_buf s) [4 ..< s_cmd_offs s]" for a b c d
    by simp
  ultimately show ?thesis
    by (simp add: frame_bytes_def header_cmd_def word_bytes_def drop_map)
qed

lemma send_prepare_fits:
  assumes "s_cmd_offs s + 8 \<le> CMD_BUF_SIZE"
  shows "send_prepare s =
     Inr (append_cmd encodeComplete (append_cmd (encodeQuality DVG_RENDER_QUALITY)
            (header_cmd (encodeFrameLength (s_vector_length s)) s)))"
  using assms
  by (simp add: send_prepare_def Let_def and_then_def put_cmd_append
        encodeComplete_def encodeQuality_def encodeFrameLength_def header_cmd_def)


lemma chunks_step:
  "xs \<noteq> [] \<Longrightarrow> 0 < n \<Longrightarrow> chunks n xs = take n xs # chunks n (drop n xs)"
  by (subst chunks.simps) simp

lemma chunks_Nil [simp]: "chunks n [] = []"
  by (subst chunks.simps) simp

lemma send_loop_device:
  "snd (send_loop wr buf sz offset result d) =
     fold (\<lambda>c d. snd (wr d c)) (chunks 1024 (map buf [offset ..< offset + sz])) d"
proof (induction wr buf sz offset result d rule: send_loop.induct)
  case (1 wr buf sz offset result d)
  show ?case
  proof (cases "sz = 0")
    case True
    then show ?thesis by (simp add: send_loop.simps)
  next
    case False
    define chunk where "chunk = min sz 1024"
    obtain r d' where w: "serial_write wr buf offset chunk d = (r, d')"
      by (cases "serial_write wr buf offset chunk d")
    have d': "d' = snd (wr d (map buf [offset ..< offset + chunk]))"
      using w by (auto simp: serial_write_def Let_def split: prod.splits)
    have ne: "map buf [offset ..< offset + sz] \<noteq> []" using False by simp
    have tk: "take 1024 (map buf [offset ..< offset + sz]) = map buf [offset ..< offset + chunk]"
      by (simp add: take_map chunk_def min_def)
    have dr: "drop 1024 (map buf [offset ..< offset + sz])
               = map buf [offset + chunk ..< offset + chunk + (sz - chunk)]"
      by (simp add: drop_map chunk_def min_def)
    have "send_loop wr buf sz offset result d
            = send_loop wr buf (sz - chunk) (offset + chunk) r d'"
      using False w by (subst send_loop.simps) (simp add: chunk_def Let_def)
    then show ?thesis
      using "1.IH" [OF False chunk_def, of "(r, d')" r d'] w
      by (simp add: chunks_step [OF ne] tk dr d')
  qed
qed

lemma fold_rec_port: "fold (\<lambda>c d. snd (rec_port d c)) cs d = d @ cs"
  by (induction cs arbitrary: d) (simp_all add: rec_port_def)

lemma concat_chunks: "0 < n \<Longrightarrow> concat (chunks n xs) = xs"
proof (induction n xs rule: chunks.induct)
  case (1 n xs)
  then show ?case
    by (cases "xs = []") (simp_all add: chunks_step)
qed

lemma length_chunks: "c \<in> set (chunks n xs) \<Longrightarrow> length c \<le> n"
proof (induction n xs rule: chunks.induct)
  case (1 n xs)
  show ?case
  proof (cases "n = 0 \<or> xs = []")
    case True
    then show ?thesis using "1.prems" by (subst (asm) chunks.simps) simp
  next
    case False
    then show ?thesis using 1 by (subst (asm) (2) chunks.simps) auto
  qed
qed

lemma chunks_short: "xs \<noteq> [] \<Longrightarrow> length xs \<le> n \<Longrightarrow> chunks n xs = [xs]"
  by (subst chunks.simps) (cases xs, auto)




lemma length_frame_bytes: "length (frame_bytes s) = s_cmd_offs s"
  by (simp add: frame_bytes_def)

lemma scale_channel:
  fixes c :: u8
  shows "(ucast (if (push_bit 3 (ucast c) :: u16) > 255 then 255
                 else (push_bit 3 (ucast c) :: u16)) :: u8)
           = of_nat (min 255 (8 * unat c))"
proof -
  have c: "unat c < 256" using unsigned_less [of c, where 'a=nat] by simp
  have "unat (push_bit 3 (ucast c) :: u16) = take_bit 16 (push_bit 3 (unat c))"
    using c by (simp add: unsigned_push_bit_eq unsigned_ucast_eq take_bit_nat_eq_self)
  also have "\<dots> = 8 * unat c"
    using c by (simp add: push_bit_eq_mult take_bit_eq_mod)
  finally have u: "unat (push_bit 3 (ucast c) :: u16) = 8 * unat c" .
  show ?thesis
  proof (cases "(push_bit 3 (ucast c) :: u16) > 255")
    case True
    then have "255 < 8 * unat c" using u by (simp add: word_less_nat_alt)
    then show ?thesis using True by simp
  next
    case False
    then have le: "8 * unat c \<le> 255" using u by (simp add: word_less_nat_alt not_less)
    have "(ucast (push_bit 3 (ucast c) :: u16) :: u8) = of_nat (unat (push_bit 3 (ucast c) :: u16))"
      by simp
    then show ?thesis using False le u by (simp add: min_def)
  qed
qed

text \<open>
  C3, as the code has it. \<open>zvgFrameSetRGB15\<close> stores each channel times 8, cut off at
  255, as the last colour, whatever the state of the buffer. A channel of 31 becomes 248:
  no value from 0 to 31 reaches the cut-off, and \<open>zvgFrameSetRGB15(31, 31, 31)\<close> stores
  (248, 248, 248).
\<close>

theorem C3_setColor_scaling:
  "colour_of (zvgFrameSetRGB15 red green blue s) =
     Some (of_nat (min 255 (8 * unat red)), of_nat (min 255 (8 * unat green)),
           of_nat (min 255 (8 * unat blue)))
   \<and> colour_of (zvgFrameSetRGB15 31 31 31 s) = Some (248, 248, 248)"
proof -
  have gen: "colour_of (zvgFrameSetRGB15 r g b s) =
     Some (of_nat (min 255 (8 * unat r)), of_nat (min 255 (8 * unat g)),
           of_nat (min 255 (8 * unat b)))" for r g b
  proof (cases "s_cmd_offs s \<le> CMD_BUF_SIZE - 8")
    case True
    then have "s_cmd_offs s + 4 \<le> CMD_BUF_SIZE" by (simp add: CMD_BUF_SIZE_def)
    then show ?thesis
      using True by (simp add: zvgFrameSetRGB15_def Let_def emit_eq colour_of_def scale_channel)
  next
    case False
    then show ?thesis
      by (simp add: zvgFrameSetRGB15_def Let_def emit_eq colour_of_def scale_channel)
  qed
  show ?thesis using gen [of red green blue] gen [of 31 31 31] by simp
qed

text \<open>
  C3, as the specification has it, fails: after \<open>zvgFrameSetRGB15(31, 31, 31)\<close> on a
  fresh frame the last colour is (248, 248, 248), not (255, 255, 255).
\<close>

theorem C3_setColor_31_counterexample:
  "colour_of (zvgFrameSetRGB15 31 31 31 (cmd_reset zvg_static)) = Some (248, 248, 248)
   \<and> colour_of (zvgFrameSetRGB15 31 31 31 (cmd_reset zvg_static)) \<noteq> Some (255, 255, 255)"
  by (simp add: zvgFrameSetRGB15_def Let_def colour_of_def cmd_reset_def zvg_static_def
        emit_eq)

subsection \<open>The driver after open\<close>

lemma st_open_fields:
  "s_cmd_offs (st_open a b c d) = 4" "s_last_r (st_open a b c d) = 0"
  "s_last_g (st_open a b c d) = 0" "s_last_b (st_open a b c d) = 0"
  "s_vector_length (st_open a b c d) = 0"
  "s_last_x (st_open a b c d) = INT_MIN" "s_last_y (st_open a b c d) = INT_MIN"
  "s_xmin (st_open a b c d) = a" "s_xmax (st_open a b c d) = c"
  "s_ymin (st_open a b c d) = b" "s_ymax (st_open a b c d) = d"
  "frame_bytes (st_open a b c d) = [0, 0, 0, 0]" "overrun (st_open a b c d) = False"
  by (simp_all add: st_open_def frame_bytes_def upt_rec)

lemma open_clipwin:
  "snd (zvgFrameOpen Opened zvg_static) = st_open 0 0 0 0"
  "zvgFrameSetClipWin a b c e (st_open 0 0 0 0) = st_open a b c e"
  by (simp_all add: st_open_def zvgFrameOpen_def serial_open_def cmd_reset_def
        zvgFrameSetClipWin_def zvg_static_def)

lemma setrgb_red:
  "s_cmd_offs s \<le> CMD_BUF_SIZE - 8 \<Longrightarrow>
   zvgFrameSetRGB15 31 0 0 s =
     Inr (append_cmd (encodeColor 248 0 0)
           (s\<lparr> s_last_r := 248, s_last_g := 0, s_last_b := 0 \<rparr>))"
  by (simp add: zvgFrameSetRGB15_def Let_def emit_eq encodeColor_def)

lemma setrgb_white:
  "s_cmd_offs s \<le> CMD_BUF_SIZE - 8 \<Longrightarrow>
   zvgFrameSetRGB15 31 31 31 s =
     Inr (append_cmd (encodeColor 248 248 248)
           (s\<lparr> s_last_r := 248, s_last_g := 248, s_last_b := 248 \<rparr>))"
  by (simp add: zvgFrameSetRGB15_def Let_def emit_eq encodeColor_def)

subsection \<open>Transmission\<close>

lemma send_rec_port:
  assumes "send_prepare s = Inr s'"
  shows "\<exists>r. serial_send rec_port s d = Inr (r, cmd_reset s', d @ chunks 1024 (frame_bytes s'))"
proof -
  obtain r d' where l: "send_loop rec_port (s_cmd_buf s') (s_cmd_offs s') 0 (- 1) d = (r, d')"
    by (cases "send_loop rec_port (s_cmd_buf s') (s_cmd_offs s') 0 (- 1) d")
  have "d' = d @ chunks 1024 (frame_bytes s')"
    using send_loop_device [of rec_port "s_cmd_buf s'" "s_cmd_offs s'" 0 "- 1" d] l
    by (simp add: fold_rec_port frame_bytes_def)
  then show ?thesis using assms l by (simp add: serial_send_def)
qed

lemma length_word_bytes [simp]: "length (word_bytes w) = 4"
  by (simp add: word_bytes_def)

lemma send_prepare_finalized:
  "s_cmd_offs s \<le> CMD_BUF_SIZE - 8 \<Longrightarrow> send_prepare s = Inr (finalized s)"
  using send_prepare_fits [of s] by (simp add: finalized_def CMD_BUF_SIZE_def)

lemma finalized_overrun [simp]: "overrun (finalized s) = overrun s"
  by (simp add: finalized_def)

lemma send_prepare_store:
  "send_prepare s =
     Inr (if s_cmd_offs s + 8 \<le> CMD_BUF_SIZE then finalized s
          else (finalized s)\<lparr> overrun := True \<rparr>)"
  by (simp add: send_prepare_def Let_def put_cmd_store finalized_def append_cmd_update
        encodeComplete_def encodeQuality_def encodeFrameLength_def header_cmd_def)

lemma fold_fail_port: "fold (\<lambda>c d. snd (fail_port d c)) cs d = d @ cs"
  by (induction cs arbitrary: d) (simp_all add: fail_port_def)

lemma send_loop_result:
  "\<exists>r. send_loop wr buf sz offset result d =
     (r, fold (\<lambda>c d. snd (wr d c)) (chunks 1024 (map buf [offset ..< offset + sz])) d)"
  using send_loop_device [of wr buf sz offset result d]
  by (cases "send_loop wr buf sz offset result d") simp

text \<open>
  C7. For every port, whatever it answers to each write, and for all variables of the
  driver, \<open>zvgFrameSend\<close> submits every piece of the finalized buffer, in order, each
  piece of at most 1024 bytes: the pieces do not depend on the answers, the loop moves on
  by the size it attempted. It then resets the frame, and it returns 0. After the call
  the offset is 4, the path length 0, the last point (\<open>INT_MIN\<close>, \<open>INT_MIN\<close>) and the
  last colour (0, 0, 0); the buffer keeps the frame it held, the clip window and the
  handle are as before. When the two trailing words did not fit the array
  (\<open>CMD_BUF_SIZE < s_cmd_offs s + 8\<close>), the call has stored behind it and the variables
  are marked; it has submitted those bytes too and returns 0 all the same.
\<close>

theorem C7_send_ignores_write_results:
  "zvgFrameSend wr s d =
     Inr (0,
          (finalized s)\<lparr> s_cmd_offs := 4, s_vector_length := 0,
             s_last_x := INT_MIN, s_last_y := INT_MIN,
             s_last_r := 0, s_last_g := 0, s_last_b := 0,
             overrun := overrun s \<or> CMD_BUF_SIZE < s_cmd_offs s + 8 \<rparr>,
          fold (\<lambda>c d. snd (wr d c)) (chunks 1024 (frame_bytes (finalized s))) d)"
proof -
  define m where "m = (overrun s \<or> CMD_BUF_SIZE < s_cmd_offs s + 8)"
  have p: "send_prepare s = Inr ((finalized s)\<lparr> overrun := m \<rparr>)"
  proof (cases "s_cmd_offs s + 8 \<le> CMD_BUF_SIZE")
    case True
    then have "m = overrun (finalized s)" by (simp add: m_def finalized_def)
    then have "(finalized s)\<lparr> overrun := m \<rparr> = finalized s" by simp
    then show ?thesis using True by (simp add: send_prepare_store)
  next
    case False
    then show ?thesis by (simp add: send_prepare_store m_def)
  qed
  obtain r where "send_loop wr (s_cmd_buf (finalized s)) (s_cmd_offs (finalized s)) 0 (- 1) d =
     (r, fold (\<lambda>c d. snd (wr d c)) (chunks 1024 (frame_bytes (finalized s))) d)"
    using send_loop_result [of wr "s_cmd_buf (finalized s)" "s_cmd_offs (finalized s)" 0 "- 1" d]
    by (auto simp: frame_bytes_def)
  then show ?thesis
    by (simp add: zvgFrameSend_def serial_send_def p cmd_reset_def flip: m_def)
qed

text \<open>
  Two instances on a port where every write fails. After open, the one piece of twelve
  bytes is still submitted. At the offset 131068, which 32766 colour calls reach, the
  call submits 131076 bytes, four of them from behind the array, and returns 0.
\<close>

theorem C7_send_ignores_write_results_witness:
  "zvgFrameSend fail_port (st_open 0 0 0 0) [] =
       Inr (0,
            (finalized (st_open 0 0 0 0))\<lparr> s_cmd_offs := 4, s_vector_length := 0,
               s_last_x := INT_MIN, s_last_y := INT_MIN,
               s_last_r := 0, s_last_g := 0, s_last_b := 0, overrun := False \<rparr>,
            [word_bytes (encodeFrameLength 0) @ word_bytes (encodeQuality 5)
               @ word_bytes encodeComplete])
   \<and> (\<exists>s' W. zvgFrameSend fail_port (st_open 0 0 0 0\<lparr> s_cmd_offs := 131068 \<rparr>) [] =
                 Inr (0, s', W)
          \<and> s_cmd_offs s' = 4 \<and> s_vector_length s' = 0 \<and> overrun s'
          \<and> length (concat W) = 131076)"
proof -
  have f: "frame_bytes (finalized (st_open 0 0 0 0)) =
      word_bytes (encodeFrameLength 0) @ word_bytes (encodeQuality 5) @ word_bytes encodeComplete"
    by (simp add: finalized_def frame_bytes_header_cmd st_open_fields DVG_RENDER_QUALITY_def)
  have c: "chunks 1024 (frame_bytes (finalized (st_open 0 0 0 0))) =
      [frame_bytes (finalized (st_open 0 0 0 0))]"
    by (rule chunks_short) (simp_all add: f word_bytes_def)
  have 1: "zvgFrameSend fail_port (st_open 0 0 0 0) [] =
       Inr (0,
            (finalized (st_open 0 0 0 0))\<lparr> s_cmd_offs := 4, s_vector_length := 0,
               s_last_x := INT_MIN, s_last_y := INT_MIN,
               s_last_r := 0, s_last_g := 0, s_last_b := 0, overrun := False \<rparr>,
            [word_bytes (encodeFrameLength 0) @ word_bytes (encodeQuality 5)
               @ word_bytes encodeComplete])"
    using C7_send_ignores_write_results [of fail_port "st_open 0 0 0 0" "[]"]
    by (simp add: c [unfolded f] f fail_port_def st_open_fields CMD_BUF_SIZE_def)
  have "length (frame_bytes (finalized (st_open 0 0 0 0\<lparr> s_cmd_offs := 131068 \<rparr>))) = 131076"
    by (simp add: length_frame_bytes finalized_def)
  then have 2: "\<exists>s' W. zvgFrameSend fail_port (st_open 0 0 0 0\<lparr> s_cmd_offs := 131068 \<rparr>) [] =
                 Inr (0, s', W)
          \<and> s_cmd_offs s' = 4 \<and> s_vector_length s' = 0 \<and> overrun s'
          \<and> length (concat W) = 131076"
    using C7_send_ignores_write_results [of fail_port "st_open 0 0 0 0\<lparr> s_cmd_offs := 131068 \<rparr>" "[]"]
    by (simp add: fold_fail_port concat_chunks CMD_BUF_SIZE_def)
  show ?thesis using 1 2 by simp
qed

lemma map_length_chunks_2500:
  assumes "length xs = 2500"
  shows "map length (chunks 1024 xs) = [1024, 1024, 452]"
proof -
  have 1: "chunks 1024 xs = take 1024 xs # chunks 1024 (drop 1024 xs)"
    using assms by (intro chunks_step) auto
  have 2: "chunks 1024 (drop 1024 xs) = take 1024 (drop 1024 xs) # chunks 1024 (drop 2048 xs)"
    using assms chunks_step [of "drop 1024 xs" 1024] by simp
  have 3: "chunks 1024 (drop 2048 xs) = [drop 2048 xs]"
    using assms by (intro chunks_short) auto
  show ?thesis using assms by (simp add: 1 2 3)
qed

text \<open>
  C9. \<open>serial_send\<close> writes the finalized buffer as the pieces \<open>chunks 1024\<close> of it:
  each of at most 1024 bytes, in order from offset 0, together the whole buffer; a
  finalized buffer of 2500 bytes is written as 1024, 1024 and 452 bytes. This is for a
  buffer in which the two trailing words fit.
\<close>

theorem C9_chunked_writes:
  assumes "s_cmd_offs s \<le> CMD_BUF_SIZE - 8"
  shows "\<exists>r W. serial_send rec_port s [] = Inr (r, cmd_reset (finalized s), W)
           \<and> W = chunks 1024 (frame_bytes (finalized s))
           \<and> (\<forall>c \<in> set W. length c \<le> 1024)
           \<and> concat W = frame_bytes (finalized s)
           \<and> length (frame_bytes (finalized s)) = s_cmd_offs s + 8
           \<and> (s_cmd_offs s + 8 = 2500 \<longrightarrow> map length W = [1024, 1024, 452])"
proof -
  obtain r where "serial_send rec_port s [] =
      Inr (r, cmd_reset (finalized s), chunks 1024 (frame_bytes (finalized s)))"
    using send_rec_port [OF send_prepare_finalized [OF assms], of "[]"] by auto
  moreover have "length (frame_bytes (finalized s)) = s_cmd_offs s + 8"
    by (simp add: length_frame_bytes finalized_def)
  ultimately show ?thesis
    by (auto simp: concat_chunks length_chunks map_length_chunks_2500)
qed

text \<open>An instance: 2492 bytes before the trailing words, 2500 bytes finalized.\<close>

theorem C9_chunked_writes_witness:
  "s_cmd_offs (st_open 0 0 0 0\<lparr> s_cmd_offs := 2492 \<rparr>) \<le> CMD_BUF_SIZE - 8
   \<and> (\<exists>r W. serial_send rec_port (st_open 0 0 0 0\<lparr> s_cmd_offs := 2492 \<rparr>) [] =
          Inr (r, cmd_reset (finalized (st_open 0 0 0 0\<lparr> s_cmd_offs := 2492 \<rparr>)), W)
        \<and> map length W = [1024, 1024, 452])"
proof -
  have a: "s_cmd_offs (st_open 0 0 0 0\<lparr> s_cmd_offs := 2492 \<rparr>) \<le> CMD_BUF_SIZE - 8"
    by (simp add: CMD_BUF_SIZE_def)
  show ?thesis
    using a C9_chunked_writes [OF a] by auto
qed

subsection \<open>The scenario of the specification\<close>

lemma isqrt_8380418: "isqrt 8380418 = 2894"
  by (simp add: isqrt.simps Let_def)

lemma conv1000:
  "CONVX lim1000 500 = Inr 2047" "CONVY lim1000 500 = Inr 2047"
  "CONVX lim1000 0 = Inr 0" "CONVY lim1000 0 = Inr 0"
  by (simp_all add: CONVX_def CONVY_def lim1000_def c_div_def signed_divide_int_def INT_MIN_def
        DVG_RES_MAX_def)

lemma vector_length_first:
  "vector_length INT_MIN INT_MIN 0 0 = 0" "vector_length 0 0 2047 2047 = 2894"
  by (simp_all add: vector_length_def INT_MIN_def word_sless_alt isqrt.simps [of 0]
        isqrt_8380418)

lemma cmd_reset_st_open: "cmd_reset (st_open a b c d) = st_open a b c d"
  by (simp add: cmd_reset_def st_open_def)

lemma run_marked: "overrun s \<Longrightarrow> run lim wr cs (s, d) = Some (Inl BufferOverrun)"
  by (cases cs) simp_all

lemma run_append:
  "run lim wr (xs @ ys) w =
     (case run lim wr xs w of
        None \<Rightarrow> None
      | Some (Inl e) \<Rightarrow> Some (Inl e)
      | Some (Inr w') \<Rightarrow> run lim wr ys w')"
proof (induction xs arbitrary: w)
  case Nil
  then show ?case by (cases w) (simp add: run_marked)
next
  case (Cons c xs)
  then show ?case by (cases w) (auto split: option.splits sum.splits)
qed

lemma run_unmarked:
  "run lim wr cs (s, d) = Some (Inr (s', d')) \<Longrightarrow> \<not> overrun s \<and> \<not> overrun s'"
proof (induction cs arbitrary: s d)
  case Nil
  then show ?case by (simp split: if_splits)
next
  case (Cons c cs)
  then show ?case by (fastforce split: if_splits option.splits sum.splits)
qed

lemma frame_bytes_finalized:
  assumes "4 \<le> s_cmd_offs s"
  shows "frame_bytes (finalized s) =
     word_bytes (encodeFrameLength (s_vector_length s)) @ drop 4 (frame_bytes s)
       @ word_bytes (encodeQuality 5) @ word_bytes encodeComplete"
  using assms by (simp add: finalized_def frame_bytes_header_cmd DVG_RENDER_QUALITY_def)

lemma sent_send:
  assumes "run lim rec_port cs (s0, []) = Some (Inr (s, []))"
      and "s_cmd_offs s \<le> CMD_BUF_SIZE - 8"
  shows "sent (run lim rec_port (cs @ [Send]) (s0, [])) = frame_bytes (finalized s)"
proof -
  obtain r where "serial_send rec_port s [] =
      Inr (r, cmd_reset (finalized s), chunks 1024 (frame_bytes (finalized s)))"
    using send_rec_port [OF send_prepare_finalized [OF assms(2)], of "[]"] by auto
  then show ?thesis
    using assms(1) run_unmarked [OF assms(1)]
    by (simp add: run_append zvgFrameSend_def sent_def concat_chunks)
qed

lemma st_drawn_fields:
  "s_cmd_offs st_drawn = 16" "s_vector_length st_drawn = 2894" "\<not> overrun st_drawn"
  "s_last_x st_drawn = 2047" "s_last_y st_drawn = 2047"
  "frame_bytes st_drawn = [0, 0, 0, 0] @ word_bytes (encodeColor 248 0 0)
     @ word_bytes (encodeMove 0 0 1) @ word_bytes (encodeMove 2047 2047 0)"
  by (simp_all add: st_drawn_def st_red_def st_open_fields)

lemma run_scenario_drawn:
  "run lim1000 wr [SetRGB15 31 0 0, Vector 0 0 500 500] (st_open 0 0 1000 1000, d)
     = Some (Inr (st_drawn, d))"
proof -
  have m: "\<not> overrun st_red" by (simp add: st_red_def)
  have c: "zvgFrameSetRGB15 31 0 0 (st_open 0 0 1000 1000) = Inr st_red"
    by (simp add: st_red_def setrgb_red st_open_fields CMD_BUF_SIZE_def)
  have l: "line_clip st_red 0 0 500 500 = Some (Inr (1, 0, 0, 500, 500))"
    by (simp add: st_red_def st_open_fields line_clip_def compute_code_def clip_loop.simps
          word_sless_alt)
  have a: "vector_accepted lim1000 0 0 500 500 st_red = Inr st_drawn"
    by (simp add: vector_accepted_def conv1000 vector_length_first Let_def emit_eq
          word_sless_alt DVG_RES_MAX_def CMD_BUF_SIZE_def st_open_fields encodeMove_def
          append_cmd_update st_red_def st_drawn_def)
  have v: "zvgFrameVector lim1000 0 0 500 500 st_red = Some (Inr (0, st_drawn))"
    by (simp add: zvgFrameVector_def l a)
  show ?thesis by (simp add: c v m st_drawn_fields)
qed

text \<open>
  C6. With logical bounds 0 to 1000, the calls open, clip window (0, 0, 1000, 1000),
  colour (31, 0, 0), vector (0, 0) to (500, 500) and send put one frame of six words on
  the wire: the frame word with payload 2894, the colour, a move to (0, 0) with the
  blank bit, a move to (2047, 2047) without it, the quality word 5 and the complete word.
  The payload is the length from the undefined point to (0, 0), which is 0, plus the
  length from (0, 0) to (2047, 2047), which is 2894, the square root of
  \<open>2047\<^sup>2 + 2047\<^sup>2\<close> truncated.
\<close>

theorem C6_scenario_frame:
  "sent (run lim1000 rec_port scenario (zvg_static, [])) =
     concat (map word_bytes
       [encodeFrameLength 2894, encodeColor 248 0 0, encodeMove 0 0 1,
        encodeMove 2047 2047 0, encodeQuality 5, encodeComplete])
   \<and> vector_length INT_MIN INT_MIN 0 0 = 0
   \<and> vector_length 0 0 2047 2047 = 2894
   \<and> (2894::nat) * 2894 \<le> 2047 * 2047 + 2047 * 2047
   \<and> (2047::nat) * 2047 + 2047 * 2047 < 2895 * 2895"
proof -
  have "run lim1000 rec_port scenario (zvg_static, []) =
      run lim1000 rec_port ([SetRGB15 31 0 0, Vector 0 0 500 500] @ [Send])
        (st_open 0 0 1000 1000, [])"
    by (simp add: scenario_def open_clipwin)
  moreover have "sent (run lim1000 rec_port ([SetRGB15 31 0 0, Vector 0 0 500 500] @ [Send])
        (st_open 0 0 1000 1000, [])) = frame_bytes (finalized st_drawn)"
    by (rule sent_send [OF run_scenario_drawn]) (simp add: st_drawn_fields CMD_BUF_SIZE_def)
  moreover have "frame_bytes (finalized st_drawn) = concat (map word_bytes
       [encodeFrameLength 2894, encodeColor 248 0 0, encodeMove 0 0 1,
        encodeMove 2047 2047 0, encodeQuality 5, encodeComplete])"
    using frame_bytes_finalized [of st_drawn] by (simp add: st_drawn_fields)
  ultimately show ?thesis
    by (simp add: vector_length_first)
qed

subsection \<open>Vectors: the end point and the start move\<close>

lemma isqrt_134152200: "isqrt 134152200 = 11582"
  by (simp add: isqrt.simps Let_def)

lemma isqrt_336200: "isqrt 336200 = 579"
  by (simp add: isqrt.simps Let_def)

lemmas eval_defs = CONVX_def CONVY_def c_div_def signed_divide_int_def INT_MIN_def
        DVG_RES_MAX_def lim1000_def

text \<open>
  C4 fails for the end point. With logical bounds 0 to 1000 and the clip window
  (0, 0, 2000, 2000), the vector (0, 0) to (2000, 2000) is accepted whole; its end
  quantizes to (8190, 8190), which is above 4095, and goes unclamped into the move word
  and into the last point. Only \<open>xs\<close> and \<open>ys\<close> are clamped in \<open>zvgFrameVector\<close>.
\<close>

theorem C4_end_point_not_clamped:
  "map_option s_last_x (final (run lim1000 wr c4_calls (zvg_static, d))) = Some 8190
   \<and> map_option s_last_y (final (run lim1000 wr c4_calls (zvg_static, d))) = Some 8190
   \<and> map_option frame_bytes (final (run lim1000 wr c4_calls (zvg_static, d))) =
       Some ([0, 0, 0, 0] @ word_bytes (encodeColor 248 248 248) @ word_bytes (encodeMove 0 0 1)
              @ word_bytes (encodeMove 8190 8190 0))
   \<and> DVG_RES_MAX <s 8190"
proof -
  define s2 where "s2 = append_cmd (encodeColor 248 248 248)
           (st_open 0 0 2000 2000\<lparr> s_last_r := 248, s_last_g := 248, s_last_b := 248 \<rparr>)"
  define s3 where "s3 = (append_cmd (encodeMove 8190 8190 0) (append_cmd (encodeMove 0 0 1) s2))
       \<lparr> s_vector_length := 11582, s_last_x := 8190, s_last_y := 8190 \<rparr>"
  have c: "zvgFrameSetRGB15 31 31 31 (st_open 0 0 2000 2000) = Inr s2"
    by (simp add: s2_def setrgb_white st_open_fields CMD_BUF_SIZE_def)
  have l: "line_clip s2 0 0 2000 2000 = Some (Inr (1, 0, 0, 2000, 2000))"
    by (simp add: s2_def st_open_fields line_clip_def compute_code_def clip_loop.simps
          word_sless_alt)
  have cv: "CONVX lim1000 2000 = Inr 8190" "CONVY lim1000 2000 = Inr 8190"
    by (simp_all add: eval_defs)
  have vl: "vector_length 0 0 8190 8190 = 11582"
    by (simp add: vector_length_def word_sless_alt isqrt_134152200)
  have a: "vector_accepted lim1000 0 0 2000 2000 s2 = Inr s3"
    by (simp add: vector_accepted_def conv1000 cv vector_length_first vl Let_def emit_eq
          word_sless_alt DVG_RES_MAX_def CMD_BUF_SIZE_def st_open_fields encodeMove_def
          append_cmd_update s2_def s3_def)
  have v: "zvgFrameVector lim1000 0 0 2000 2000 s2 = Some (Inr (0, s3))"
    by (simp add: zvgFrameVector_def l a)
  have m: "\<not> overrun s2" "\<not> overrun s3"
    by (simp_all add: s3_def s2_def)
  have "run lim1000 wr c4_calls (zvg_static, d) = Some (Inr (s3, d))"
    by (simp add: c4_calls_def open_clipwin c v m)
  then show ?thesis
    by (simp add: final_def s3_def s2_def st_open_fields DVG_RES_MAX_def word_sless_alt)
qed

text \<open>
  C2 fails. With logical bounds 0 to 1000, after the vector (0, 0) to (500, 500) the last
  device point is (2047, 2047). The next vector starts at the logical point (500, 500),
  which quantizes to (2047, 2047), the last device point; yet a move to (2047, 2047) with
  the blank bit is appended, because \<open>zvgFrameVector\<close> compares the logical \<open>xStart\<close>,
  \<open>yStart\<close> with the device coordinates \<open>s_last_x\<close>, \<open>s_last_y\<close>.
\<close>

theorem C2_start_move_for_equal_point:
  "map_option frame_bytes (final (run lim1000 wr (butlast c2_calls) (zvg_static, d))) =
       Some ([0, 0, 0, 0] @ word_bytes (encodeColor 248 248 248) @ word_bytes (encodeMove 0 0 1)
              @ word_bytes (encodeMove 2047 2047 0))
   \<and> map_option s_last_x (final (run lim1000 wr (butlast c2_calls) (zvg_static, d))) = Some 2047
   \<and> map_option s_last_y (final (run lim1000 wr (butlast c2_calls) (zvg_static, d))) = Some 2047
   \<and> CONVX lim1000 500 = Inr 2047 \<and> CONVY lim1000 500 = Inr 2047
   \<and> map_option frame_bytes (final (run lim1000 wr c2_calls (zvg_static, d))) =
       Some ([0, 0, 0, 0] @ word_bytes (encodeColor 248 248 248) @ word_bytes (encodeMove 0 0 1)
              @ word_bytes (encodeMove 2047 2047 0) @ word_bytes (encodeMove 2047 2047 1)
              @ word_bytes (encodeMove 2457 2457 0))"
proof -
  define s2 where "s2 = append_cmd (encodeColor 248 248 248)
           (st_open 0 0 1000 1000\<lparr> s_last_r := 248, s_last_g := 248, s_last_b := 248 \<rparr>)"
  define s3 where "s3 = (append_cmd (encodeMove 2047 2047 0) (append_cmd (encodeMove 0 0 1) s2))
       \<lparr> s_vector_length := 2894, s_last_x := 2047, s_last_y := 2047 \<rparr>"
  define s4 where "s4 = (append_cmd (encodeMove 2457 2457 0) (append_cmd (encodeMove 2047 2047 1) s3))
       \<lparr> s_vector_length := 3473, s_last_x := 2457, s_last_y := 2457 \<rparr>"
  have c: "zvgFrameSetRGB15 31 31 31 (st_open 0 0 1000 1000) = Inr s2"
    by (simp add: s2_def setrgb_white st_open_fields CMD_BUF_SIZE_def)
  have l: "line_clip s2 0 0 500 500 = Some (Inr (1, 0, 0, 500, 500))"
    by (simp add: s2_def st_open_fields line_clip_def compute_code_def clip_loop.simps
          word_sless_alt)
  have a: "vector_accepted lim1000 0 0 500 500 s2 = Inr s3"
    by (simp add: vector_accepted_def conv1000 vector_length_first Let_def emit_eq
          word_sless_alt DVG_RES_MAX_def CMD_BUF_SIZE_def st_open_fields encodeMove_def
          append_cmd_update s2_def s3_def)
  have v: "zvgFrameVector lim1000 0 0 500 500 s2 = Some (Inr (0, s3))"
    by (simp add: zvgFrameVector_def l a)
  have l': "line_clip s3 500 500 600 600 = Some (Inr (1, 500, 500, 600, 600))"
    by (simp add: s3_def s2_def st_open_fields line_clip_def compute_code_def clip_loop.simps
          word_sless_alt)
  have cv: "CONVX lim1000 600 = Inr 2457" "CONVY lim1000 600 = Inr 2457"
    by (simp_all add: eval_defs)
  have vl: "vector_length 2047 2047 2047 2047 = 0"
       "vector_length 2047 2047 2457 2457 = 579"
    by (simp_all add: vector_length_def word_sless_alt isqrt_336200 isqrt.simps [of 0])
  have a': "vector_accepted lim1000 500 500 600 600 s3 = Inr s4"
    by (simp add: vector_accepted_def conv1000 cv vl Let_def emit_eq
          word_sless_alt DVG_RES_MAX_def CMD_BUF_SIZE_def st_open_fields encodeMove_def
          append_cmd_update s2_def s3_def s4_def)
  have v': "zvgFrameVector lim1000 500 500 600 600 s3 = Some (Inr (0, s4))"
    by (simp add: zvgFrameVector_def l' a')
  have m: "\<not> overrun s2" "\<not> overrun s3" "\<not> overrun s4"
    by (simp_all add: s4_def s3_def s2_def)
  have 1: "run lim1000 wr (butlast c2_calls) (zvg_static, d) = Some (Inr (s3, d))"
    by (simp add: c2_calls_def open_clipwin c v m)
  have 2: "run lim1000 wr c2_calls (zvg_static, d) = Some (Inr (s4, d))"
    by (simp add: c2_calls_def open_clipwin c v v' m)
  show ?thesis
    by (simp add: 1 2 final_def s4_def s3_def s2_def st_open_fields conv1000)
qed

subsection \<open>The capacity of the buffer\<close>

text \<open>
  An append never stores outside the buffer: its guard keeps the offset at or below
  131068. What overruns is the pair of words that \<open>serial_send\<close> appends without a guard.
\<close>

lemma emit_capacity:
  assumes "s_cmd_offs s \<le> CMD_BUF_SIZE - 4"
  shows "\<exists>s'. emit cmd s = Inr s' \<and> s_cmd_offs s' \<le> CMD_BUF_SIZE - 4"
  using assms by (simp add: emit_eq CMD_BUF_SIZE_def)

lemma setrgb_offs:
  assumes "s_cmd_offs s \<le> CMD_BUF_SIZE - 8"
  shows "\<exists>s'. zvgFrameSetRGB15 r g b s = Inr s' \<and> s_cmd_offs s' = s_cmd_offs s + 4
            \<and> overrun s' = overrun s"
  using assms by (simp add: zvgFrameSetRGB15_def Let_def emit_eq)

lemma run_replicate_setrgb:
  assumes "s_cmd_offs s + 4 * n \<le> CMD_BUF_SIZE - 4" "\<not> overrun s"
  shows "\<exists>s'. run lim wr (replicate n (SetRGB15 r g b)) (s, d) = Some (Inr (s', d))
            \<and> s_cmd_offs s' = s_cmd_offs s + 4 * n"
  using assms
proof (induction n arbitrary: s)
  case 0
  then show ?case by simp
next
  case (Suc n)
  then have "s_cmd_offs s \<le> CMD_BUF_SIZE - 8" by (simp add: CMD_BUF_SIZE_def)
  then obtain s1 where s1: "zvgFrameSetRGB15 r g b s = Inr s1" "s_cmd_offs s1 = s_cmd_offs s + 4"
      "overrun s1 = overrun s"
    using setrgb_offs by blast
  then have "s_cmd_offs s1 + 4 * n \<le> CMD_BUF_SIZE - 4" "\<not> overrun s1" using Suc.prems by simp_all
  from Suc.IH [OF this] s1 Suc.prems(2) show ?case by auto
qed

lemma send_prepare_overrun:
  assumes "s_cmd_offs s = CMD_BUF_SIZE - 4"
  shows "send_prepare s = Inr ((finalized s)\<lparr> overrun := True \<rparr>)"
  using assms by (simp add: send_prepare_store CMD_BUF_SIZE_def)

text \<open>
  C1 fails. The appends are let through while the offset is at most 131064, so the
  offset reaches 131068 after 32766 colour calls. \<open>zvgFrameSend\<close> then appends eight more
  bytes without a test: the quality word fills the buffer to its end and the first byte
  of the complete word is stored at index 131072, outside the 131072 bytes of
  \<open>s_cmd_buf\<close>. The run ends there, with \<open>BufferOverrun\<close>.
\<close>

theorem C1_send_overruns_full_buffer:
  "map_option s_cmd_offs (final (run lim wr c1_calls (zvg_static, d))) = Some 131068
   \<and> run lim wr (c1_calls @ [Send]) (zvg_static, d) = Some (Inl BufferOverrun)"
proof -
  have "s_cmd_offs (st_open 0 0 0 0) + 4 * 32766 \<le> CMD_BUF_SIZE - 4"
    by (simp add: st_open_fields CMD_BUF_SIZE_def)
  from run_replicate_setrgb [OF this unmarked(2), of lim wr 31 31 31 d] obtain s where s: "run lim wr (replicate 32766 (SetRGB15 31 31 31)) (st_open 0 0 0 0, d)
        = Some (Inr (s, d))" "s_cmd_offs s = s_cmd_offs (st_open 0 0 0 0) + 4 * 32766"
    by blast
  then have o: "s_cmd_offs s = 131068" by (simp add: st_open_fields)
  have r: "run lim wr c1_calls (zvg_static, d) = Some (Inr (s, d))"
    using s(1) by (simp add: c1_calls_def open_clipwin)
  have "send_prepare s = Inr ((finalized s)\<lparr> overrun := True \<rparr>)"
    using o by (intro send_prepare_overrun) (simp add: CMD_BUF_SIZE_def)
  then have "run lim wr [Send] (s, d) = Some (Inl BufferOverrun)"
    using run_unmarked [OF s(1)]
    by (simp add: zvgFrameSend_def serial_send_def split: prod.splits)
  then show ?thesis
    using r o by (simp add: run_append final_def)
qed

subsection \<open>The shape of a frame\<close>

lemma and_then_InrE:
  assumes "and_then r f = Inr y"
  obtains v where "r = Inr v" "f v = Inr y"
  using assms by (cases r) auto

lemma emit_offs:
  "emit cmd s = Inr s' \<Longrightarrow> s_cmd_offs s \<le> s_cmd_offs s'"
  by (auto simp: emit_eq split: if_splits)

lemma emit_if_offs:
  "(if c then emit cmd s else Inr s) = Inr s' \<Longrightarrow> s_cmd_offs s \<le> s_cmd_offs s'"
  by (cases c) (auto dest: emit_offs)

lemma vector_accepted_offs:
  assumes "vector_accepted lim a b c e s = Inr s'"
  shows "s_cmd_offs s \<le> s_cmd_offs s'"
  using assms unfolding vector_accepted_def Let_def
  by (elim and_then_InrE) (fastforce dest!: emit_if_offs emit_offs)

lemma zvgFrameVector_offs:
  assumes "zvgFrameVector lim a b c e s = Some (Inr (r, s'))"
  shows "s_cmd_offs s \<le> s_cmd_offs s'"
  using assms vector_accepted_offs
  by (auto simp: zvgFrameVector_def split: option.splits sum.splits if_splits elim!: and_then_InrE)

lemma setrgb_offs_mono:
  "zvgFrameSetRGB15 r g b s = Inr s' \<Longrightarrow> s_cmd_offs s \<le> s_cmd_offs s'"
  by (auto simp: zvgFrameSetRGB15_def Let_def emit_eq split: if_splits)

lemma do_call_draw:
  assumes "is_draw c" "do_call lim wr c (s, d) = Some (Inr (s', d'))"
  shows "s_cmd_offs s \<le> s_cmd_offs s' \<and> d' = d"
  using assms
  by (cases c) (auto split: option.splits elim!: and_then_InrE dest: setrgb_offs_mono zvgFrameVector_offs)

lemma run_draw:
  assumes "list_all is_draw cs" "run lim wr cs (s, d) = Some (Inr (s', d'))"
  shows "s_cmd_offs s \<le> s_cmd_offs s' \<and> d' = d"
  using assms
proof (induction cs arbitrary: s d)
  case Nil
  then show ?case by (simp split: if_splits)
next
  case (Cons c cs)
  then obtain s1 d1 where 1: "do_call lim wr c (s, d) = Some (Inr (s1, d1))"
      and 2: "run lim wr cs (s1, d1) = Some (Inr (s', d'))"
    by (auto split: if_splits option.splits sum.splits)
  from do_call_draw [OF _ 1] Cons.prems have "s_cmd_offs s \<le> s_cmd_offs s1 \<and> d1 = d" by simp
  moreover from Cons.IH [OF _ 2] Cons.prems have "s_cmd_offs s1 \<le> s_cmd_offs s' \<and> d' = d1" by simp
  ultimately show ?case by simp
qed

lemma frame_word_fields:
  fixes len :: u32
  assumes "len < 2 ^ 29"
  shows "drop_bit 29 (encodeFrameLength len) = FLAG_FRAME"
    and "take_bit 29 (encodeFrameLength len) = len"
proof -
  have t: "take_bit 29 len = len"
    using less_mask_eq [OF assms] by (simp add: take_bit_eq_mask)
  then have d: "drop_bit 29 len = 0"
    by (simp add: take_bit_eq_self_iff_drop_bit_eq_0)
  show "drop_bit 29 (encodeFrameLength len) = FLAG_FRAME"
    by (simp add: encodeFrameLength_def d FLAG_FRAME_def)
  show "take_bit 29 (encodeFrameLength len) = len"
    by (simp add: encodeFrameLength_def t FLAG_FRAME_def)
qed

lemma trailer_word_fields:
  "drop_bit 29 (encodeQuality 5) = FLAG_QUALITY" "take_bit 29 (encodeQuality 5) = 5"
  "drop_bit 29 encodeComplete = FLAG_COMPLETE" "take_bit 29 encodeComplete = 0"
  by (simp_all add: encodeQuality_def encodeComplete_def FLAG_QUALITY_def FLAG_COMPLETE_def)

text \<open>
  C5, as the code has it. After calls that only draw, starting from a reset frame, if
  the two trailing words still fit (the offset is at most 131064) and the path length is
  below \<open>2\<^sup>2\<^sup>9\<close>, then \<open>zvgFrameSend\<close> puts on the wire: the frame word, whose tag is
  FRAME and whose 29-bit payload is the path length; the words appended since the
  reset; the quality word with payload 5; the complete word with payload 0. The calls
  that draw are taken to have returned: one of them does not when a division traps or
  when the loop of \<open>line_clip\<close> does not end. A vector whose squared length wraps around
  is not among those: its call returns, with 0 for the length.
\<close>

theorem C5_frame_shape:
  assumes "list_all is_draw cs"
      and "run lim rec_port cs (cmd_reset s0, []) = Some (Inr (s, d))"
      and "s_cmd_offs s \<le> CMD_BUF_SIZE - 8"
      and "s_vector_length s < 2 ^ 29"
  shows "sent (run lim rec_port (cs @ [Send]) (cmd_reset s0, [])) =
           word_bytes (encodeFrameLength (s_vector_length s)) @ drop 4 (frame_bytes s)
             @ word_bytes (encodeQuality 5) @ word_bytes encodeComplete
         \<and> drop_bit 29 (encodeFrameLength (s_vector_length s)) = FLAG_FRAME
         \<and> take_bit 29 (encodeFrameLength (s_vector_length s)) = s_vector_length s
         \<and> drop_bit 29 (encodeQuality 5) = FLAG_QUALITY \<and> take_bit 29 (encodeQuality 5) = 5
         \<and> drop_bit 29 encodeComplete = FLAG_COMPLETE \<and> take_bit 29 encodeComplete = 0"
proof -
  from run_draw [OF assms(1,2)] have o: "4 \<le> s_cmd_offs s" and d: "d = []"
    by (simp_all add: cmd_reset_def)
  show ?thesis
    using sent_send [OF assms(2) [unfolded d] assms(3)] frame_bytes_finalized [OF o]
      frame_word_fields [OF assms(4)]
    by (simp add: trailer_word_fields)
qed

lemma conv4095:
  "CONVX lim4095 0 = Inr 0" "CONVY lim4095 0 = Inr 0" "CONVX lim4095 46340 = Inr 46340"
  "CONVX lim4095 46341 = Inr 46341"
  by (simp_all add: CONVX_def CONVY_def lim4095_def c_div_def signed_divide_int_def INT_MIN_def
        DVG_RES_MAX_def)

lemma vector_length_wrapped: "vector_length 0 0 46341 0 = 0"
  by (simp add: vector_length_def word_sless_alt)

lemma st_wrapped_fields:
  "s_cmd_offs st_wrapped = 12" "s_vector_length st_wrapped = 0" "\<not> overrun st_wrapped"
  "frame_bytes st_wrapped = [0, 0, 0, 0] @ word_bytes (encodeMove 0 0 1)
     @ word_bytes (encodeMove 46341 0 1)"
  by (simp_all add: st_wrapped_def st_open_fields)

lemma run_wrapped:
  "run lim4095 wr [Vector 0 0 46341 0] (st_open 0 0 50000 0, d) = Some (Inr (st_wrapped, d))"
proof -
  have l: "line_clip (st_open 0 0 50000 0) 0 0 46341 0 = Some (Inr (1, 0, 0, 46341, 0))"
    by (simp add: st_open_fields line_clip_def compute_code_def clip_loop.simps word_sless_alt)
  have a: "vector_accepted lim4095 0 0 46341 0 (st_open 0 0 50000 0) = Inr st_wrapped"
    by (simp add: vector_accepted_def conv4095 vector_length_first vector_length_wrapped Let_def
          emit_eq word_sless_alt DVG_RES_MAX_def CMD_BUF_SIZE_def st_open_fields encodeMove_def
          append_cmd_update st_wrapped_def)
  have v: "zvgFrameVector lim4095 0 0 46341 0 (st_open 0 0 50000 0) = Some (Inr (0, st_wrapped))"
    by (simp add: zvgFrameVector_def l a)
  show ?thesis by (simp add: v st_wrapped_fields)
qed

text \<open>
  Two instances. The colour and the vector of the scenario. And a vector whose squared
  length wraps around to a negative number: \<open>vector_length\<close> answers 0 for it, the call
  returns, and the frame goes out with the path length 0.
\<close>

theorem C5_frame_shape_witness:
  "list_all is_draw [SetRGB15 31 0 0, Vector 0 0 500 500]
   \<and> run lim1000 rec_port [SetRGB15 31 0 0, Vector 0 0 500 500]
         (cmd_reset (st_open 0 0 1000 1000), []) = Some (Inr (st_drawn, []))
   \<and> s_cmd_offs st_drawn \<le> CMD_BUF_SIZE - 8
   \<and> s_vector_length st_drawn < 2 ^ 29
   \<and> sent (run lim1000 rec_port ([SetRGB15 31 0 0, Vector 0 0 500 500] @ [Send])
         (cmd_reset (st_open 0 0 1000 1000), [])) =
       word_bytes (encodeFrameLength 2894) @ word_bytes (encodeColor 248 0 0)
         @ word_bytes (encodeMove 0 0 1) @ word_bytes (encodeMove 2047 2047 0)
         @ word_bytes (encodeQuality 5) @ word_bytes encodeComplete
   \<and> list_all is_draw [Vector 0 0 46341 0]
   \<and> run lim4095 rec_port [Vector 0 0 46341 0] (cmd_reset (st_open 0 0 50000 0), [])
        = Some (Inr (st_wrapped, []))
   \<and> s_cmd_offs st_wrapped \<le> CMD_BUF_SIZE - 8
   \<and> s_vector_length st_wrapped < 2 ^ 29
   \<and> sent (run lim4095 rec_port ([Vector 0 0 46341 0] @ [Send])
         (cmd_reset (st_open 0 0 50000 0), [])) =
       word_bytes (encodeFrameLength 0) @ word_bytes (encodeMove 0 0 1)
         @ word_bytes (encodeMove 46341 0 1)
         @ word_bytes (encodeQuality 5) @ word_bytes encodeComplete"
proof -
  have 1: "list_all is_draw [SetRGB15 31 0 0, Vector 0 0 500 500]" by simp
  have 2: "run lim1000 rec_port [SetRGB15 31 0 0, Vector 0 0 500 500]
         (cmd_reset (st_open 0 0 1000 1000), []) = Some (Inr (st_drawn, []))"
    unfolding cmd_reset_st_open by (rule run_scenario_drawn)
  have 3: "s_cmd_offs st_drawn \<le> CMD_BUF_SIZE - 8"
    by (simp add: st_drawn_fields CMD_BUF_SIZE_def)
  have 4: "s_vector_length st_drawn < 2 ^ 29"
    by (simp add: st_drawn_fields)
  have 5: "list_all is_draw [Vector 0 0 46341 0]" by simp
  have 6: "run lim4095 rec_port [Vector 0 0 46341 0] (cmd_reset (st_open 0 0 50000 0), [])
        = Some (Inr (st_wrapped, []))"
    unfolding cmd_reset_st_open by (rule run_wrapped)
  have 7: "s_cmd_offs st_wrapped \<le> CMD_BUF_SIZE - 8"
    by (simp add: st_wrapped_fields CMD_BUF_SIZE_def)
  have 8: "s_vector_length st_wrapped < 2 ^ 29"
    by (simp add: st_wrapped_fields)
  have a: "sent (run lim1000 rec_port ([SetRGB15 31 0 0, Vector 0 0 500 500] @ [Send])
         (cmd_reset (st_open 0 0 1000 1000), [])) =
       word_bytes (encodeFrameLength 2894) @ word_bytes (encodeColor 248 0 0)
         @ word_bytes (encodeMove 0 0 1) @ word_bytes (encodeMove 2047 2047 0)
         @ word_bytes (encodeQuality 5) @ word_bytes encodeComplete"
    using C5_frame_shape [OF 1 2 3 4] by (simp add: st_drawn_fields)
  have b: "sent (run lim4095 rec_port ([Vector 0 0 46341 0] @ [Send])
         (cmd_reset (st_open 0 0 50000 0), [])) =
       word_bytes (encodeFrameLength 0) @ word_bytes (encodeMove 0 0 1)
         @ word_bytes (encodeMove 46341 0 1)
         @ word_bytes (encodeQuality 5) @ word_bytes encodeComplete"
    using C5_frame_shape [OF 5 6 7 8] by (simp add: st_wrapped_fields)
  from 1 2 3 4 a 5 6 7 8 b show ?thesis by blast
qed

lemma isqrt_2147395600: "isqrt 2147395600 = 46340"
  by (simp add: isqrt.simps Let_def)

lemma vector_length_far:
  "vector_length 0 0 46340 0 = 46340" "vector_length 46340 0 0 0 = 46340"
  by (simp_all add: vector_length_def word_sless_alt isqrt_2147395600)

lemma line_clip_far:
  assumes "far_window s"
  shows "line_clip s 0 0 46340 0 = Some (Inr (1, 0, 0, 46340, 0))"
  using assms
  by (simp add: far_window_def line_clip_def compute_code_def clip_loop.simps word_sless_alt)

lemma draw_far_first:
  assumes "far_window s" "s_last_x s = INT_MIN" "s_last_y s = INT_MIN"
      and "s_cmd_offs s \<le> CMD_BUF_SIZE - 16"
  shows "\<exists>s'. zvgFrameVector lim4095 0 0 46340 0 s = Some (Inr (0, s')) \<and> far_window s'
     \<and> s_last_x s' = 46340 \<and> s_last_y s' = 0
     \<and> s_vector_length s' = s_vector_length s + 46340 \<and> s_cmd_offs s' = s_cmd_offs s + 8
     \<and> overrun s' = overrun s"
  using assms(2-) assms(1) [unfolded far_window_def]
  by (simp add: zvgFrameVector_def line_clip_far [OF assms(1)] vector_accepted_def conv4095
        vector_length_far vector_length_first Let_def emit_eq word_sless_alt DVG_RES_MAX_def
        CMD_BUF_SIZE_def far_window_def)

lemma draw_far_again:
  assumes "far_window s" "s_last_x s = 46340" "s_last_y s = 0"
      and "s_cmd_offs s \<le> CMD_BUF_SIZE - 16"
  shows "\<exists>s'. zvgFrameVector lim4095 0 0 46340 0 s = Some (Inr (0, s')) \<and> far_window s'
     \<and> s_last_x s' = 46340 \<and> s_last_y s' = 0
     \<and> s_vector_length s' = s_vector_length s + 92680 \<and> s_cmd_offs s' = s_cmd_offs s + 8
     \<and> overrun s' = overrun s"
  using assms(2-) assms(1) [unfolded far_window_def]
  by (simp add: zvgFrameVector_def line_clip_far [OF assms(1)] vector_accepted_def conv4095
        vector_length_far Let_def emit_eq word_sless_alt DVG_RES_MAX_def
        CMD_BUF_SIZE_def far_window_def)

lemma run_replicate_far:
  assumes "far_window s" "s_last_x s = 46340" "s_last_y s = 0"
      and "s_cmd_offs s + 8 * n \<le> CMD_BUF_SIZE - 8" "\<not> overrun s"
  shows "\<exists>s'. run lim4095 wr (replicate n (Vector 0 0 46340 0)) (s, d) = Some (Inr (s', d))
     \<and> s_vector_length s' = s_vector_length s + 92680 * of_nat n
     \<and> s_cmd_offs s' = s_cmd_offs s + 8 * n"
  using assms
proof (induction n arbitrary: s)
  case 0
  then show ?case by simp
next
  case (Suc n)
  then have "s_cmd_offs s \<le> CMD_BUF_SIZE - 16" by (simp add: CMD_BUF_SIZE_def)
  from draw_far_again [OF Suc.prems(1-3) this]
  obtain s1 where s1: "zvgFrameVector lim4095 0 0 46340 0 s = Some (Inr (0, s1))"
      "far_window s1" "s_last_x s1 = 46340" "s_last_y s1 = 0"
      "s_vector_length s1 = s_vector_length s + 92680" "s_cmd_offs s1 = s_cmd_offs s + 8"
      "overrun s1 = overrun s"
    by blast
  have "s_cmd_offs s1 + 8 * n \<le> CMD_BUF_SIZE - 8" "\<not> overrun s1"
    using Suc.prems(4,5) s1(6,7) by simp_all
  from Suc.IH [OF s1(2-4) this] s1(1,5,6) Suc.prems(5) show ?case
    by (auto simp: algebra_simps)
qed


lemma run_c5_calls:
  "\<exists>s. run lim4095 wr c5_calls (zvg_static, d) = Some (Inr (s, d))
       \<and> s_vector_length s = 536941580 \<and> s_cmd_offs s = 46356"
proof -
  have w: "far_window (st_open 0 0 46340 0)"
    by (simp add: far_window_def st_open_fields)
  have "s_cmd_offs (st_open 0 0 46340 0) \<le> CMD_BUF_SIZE - 16"
    by (simp add: st_open_fields CMD_BUF_SIZE_def)
  from draw_far_first [OF w _ _ this]
  obtain s1 where s1: "zvgFrameVector lim4095 0 0 46340 0 (st_open 0 0 46340 0) = Some (Inr (0, s1))"
      "far_window s1" "s_last_x s1 = 46340" "s_last_y s1 = 0"
      "s_vector_length s1 = 46340" "s_cmd_offs s1 = 12" "\<not> overrun s1"
    by (auto simp: st_open_fields)
  have "s_cmd_offs s1 + 8 * 5793 \<le> CMD_BUF_SIZE - 8"
    by (simp add: s1(6) CMD_BUF_SIZE_def)
  from run_replicate_far [OF s1(2-4) this s1(7), of wr d]
  obtain s where s: "run lim4095 wr (replicate 5793 (Vector 0 0 46340 0)) (s1, d) = Some (Inr (s, d))"
      "s_vector_length s = s_vector_length s1 + 92680 * of_nat 5793"
      "s_cmd_offs s = s_cmd_offs s1 + 8 * 5793"
    by blast
  have "replicate 5794 (Vector 0 0 46340 0) = Vector 0 0 46340 0 # replicate 5793 (Vector 0 0 46340 0)"
    by (simp add: replicate_Suc [symmetric] del: replicate_Suc)
  then have "run lim4095 wr c5_calls (zvg_static, d) = Some (Inr (s, d))"
    using s1(1) s(1) by (simp add: c5_calls_def open_clipwin)
  then show ?thesis
    using s(2,3) s1(5,6) by simp
qed

text \<open>
  C5, as the specification has it, fails. With the clip window (0, 0, 46340, 0) and
  logical coordinates equal to device coordinates, 5794 times the vector (0, 0) to
  (46340, 0) add up to the path length 536941580, which is above \<open>2\<^sup>2\<^sup>9\<close>; the frame
  still fits the buffer. The first word on the wire is then \<open>0xA001140C\<close>: its tag is 5,
  not FRAME, and its payload is not the path length.
\<close>

theorem C5_long_path_counterexample:
  "map_option s_vector_length (final (run lim4095 rec_port c5_calls (zvg_static, [])))
     = Some 536941580
   \<and> take 4 (sent (run lim4095 rec_port (c5_calls @ [Send]) (zvg_static, [])))
       = word_bytes 0xA001140C
   \<and> drop_bit 29 (0xA001140C :: u32) = 5 \<and> FLAG_FRAME \<noteq> 5
   \<and> take_bit 29 (0xA001140C :: u32) \<noteq> 536941580"
proof -
  obtain s where s: "run lim4095 rec_port c5_calls (zvg_static, []) = Some (Inr (s, []))"
      "s_vector_length s = 536941580" "s_cmd_offs s = 46356"
    using run_c5_calls [of rec_port "[]"] by blast
  have "sent (run lim4095 rec_port (c5_calls @ [Send]) (zvg_static, [])) = frame_bytes (finalized s)"
    by (rule sent_send [OF s(1)]) (simp add: s(3) CMD_BUF_SIZE_def)
  moreover have "frame_bytes (finalized s) =
     word_bytes (encodeFrameLength 536941580) @ drop 4 (frame_bytes s)
       @ word_bytes (encodeQuality 5) @ word_bytes encodeComplete"
    using frame_bytes_finalized [of s] by (simp add: s(2,3))
  moreover have "encodeFrameLength 536941580 = 0xA001140C"
    by (simp add: encodeFrameLength_def FLAG_FRAME_def)
  ultimately show ?thesis
    by (simp add: s(1,2) final_def FLAG_FRAME_def)
qed

subsection \<open>Clipping: arithmetic without overflow\<close>

lemma sint_in_range:
  fixes k :: int
  assumes "- 2147483648 \<le> k" "k < 2147483648"
  shows "sint (word_of_int k :: i32) = k"
  using assms by (simp add: signed_of_int signed_take_bit_int_eq_self)

lemma sint_diff_small:
  assumes "small a" "small b"
  shows "sint (a - b) = sint a - sint b"
  using assms unfolding small_def
  by (simp add: sint_word_ariths signed_take_bit_int_eq_self)

lemma sint_add_quot:
  fixes a q :: i32
  assumes "small a" "\<bar>sint q\<bar> \<le> 32768"
  shows "sint (a + q) = sint a + sint q"
proof -
  have "- (2 ^ 31) \<le> sint a + sint q" "sint a + sint q < 2 ^ 31"
    using assms unfolding small_def by auto
  then show ?thesis
    by (simp add: sint_word_ariths signed_take_bit_int_eq_self)
qed

lemma abs_mult_bound:
  fixes p q :: int
  assumes "\<bar>p\<bar> \<le> 32768" "\<bar>q\<bar> \<le> 32768"
  shows "\<bar>p * q\<bar> \<le> 1073741824"
proof -
  have "\<bar>p\<bar> * \<bar>q\<bar> \<le> 32768 * 32768"
    by (rule mult_mono) (use assms in auto)
  then show ?thesis by (simp add: abs_mult)
qed

lemma sint_mult_small:
  fixes p q :: i32
  assumes "\<bar>sint p\<bar> \<le> 32768" "\<bar>sint q\<bar> \<le> 32768"
  shows "sint (p * q) = sint p * sint q"
proof -
  have "\<bar>sint p * sint q\<bar> \<le> 1073741824"
    using assms by (rule abs_mult_bound)
  then show ?thesis
    by (simp add: sint_word_ariths signed_take_bit_int_eq_self)
qed

lemma sdiv_scaled:
  fixes D a b :: int
  assumes "b \<noteq> 0" "\<bar>a\<bar> \<le> \<bar>b\<bar>" "0 \<le> a * b"
  shows "\<exists>t. (D * a) sdiv b = sgn D * t \<and> 0 \<le> t \<and> t \<le> \<bar>D\<bar>"
proof (cases "a = 0")
  case True
  then show ?thesis by (intro exI [of _ 0]) simp
next
  case False
  with assms have "0 < a * b" by (simp add: order_less_le)
  then have s: "sgn a * sgn b = 1"
    by (metis sgn_mult sgn_pos)
  let ?t = "(\<bar>D\<bar> * \<bar>a\<bar>) div \<bar>b\<bar>"
  have "\<bar>D\<bar> * \<bar>a\<bar> \<le> \<bar>D\<bar> * \<bar>b\<bar>"
    using assms(2) by (simp add: mult_left_mono)
  then have "?t \<le> (\<bar>D\<bar> * \<bar>b\<bar>) div \<bar>b\<bar>"
    using assms(1) by (intro zdiv_mono1) auto
  then have le: "?t \<le> \<bar>D\<bar>" using assms(1) by simp
  have ge: "0 \<le> ?t" by (simp add: div_int_pos_iff)
  have "(D * a) sdiv b = sgn D * (sgn a * sgn b) * ?t"
    by (simp add: signed_divide_int_def sgn_mult abs_mult mult.assoc)
  then show ?thesis using s le ge by auto
qed

lemma sdiv_between:
  fixes D a b :: int
  assumes "b \<noteq> 0" "\<bar>a\<bar> \<le> \<bar>b\<bar>" "0 \<le> a * b"
  shows "min 0 D \<le> (D * a) sdiv b \<and> (D * a) sdiv b \<le> max 0 D"
proof -
  from sdiv_scaled [OF assms, of D] obtain t
    where t: "(D * a) sdiv b = sgn D * t" "0 \<le> t" "t \<le> \<bar>D\<bar>" by blast
  show ?thesis
    unfolding t(1) using t(2,3) by (cases "0 \<le> D") (auto simp: sgn_if)
qed

lemma c_div_small:
  assumes "sint d \<noteq> 0" "\<bar>sint n\<bar> \<le> 1073741824"
  shows "\<exists>q. c_div n d = Inr q \<and> sint q = sint n sdiv sint d"
proof -
  have d: "d \<noteq> 0" using assms(1) by auto
  have n: "n \<noteq> INT_MIN"
  proof
    assume "n = INT_MIN"
    then have "sint n = - 2147483648" by (simp add: INT_MIN_def)
    with assms(2) show False by simp
  qed
  have "\<bar>sint n\<bar> div \<bar>sint d\<bar> \<le> \<bar>sint n\<bar> div 1"
    using assms(1) by (intro zdiv_mono2) auto
  moreover have "0 \<le> \<bar>sint n\<bar> div \<bar>sint d\<bar>"
    by (simp add: div_int_pos_iff)
  ultimately have "\<bar>sint n sdiv sint d\<bar> \<le> \<bar>sint n\<bar>"
    by (simp add: signed_divide_int_def abs_mult abs_sgn_eq)
  then have "- 2147483648 \<le> sint n sdiv sint d" "sint n sdiv sint d < 2147483648"
    using assms(2) by auto
  then have "sint (word_of_int (sint n sdiv sint d) :: i32) = sint n sdiv sint d"
    by (rule sint_in_range)
  then show ?thesis using d n by (simp add: c_div_def)
qed

lemma interpolate:
  assumes "small a1" "small a2" "small b1" "small b2" "small bd"
      and "sint b1 \<noteq> sint b2" "between (sint b1) (sint bd) (sint b2)"
  shows "\<exists>q. c_div ((a2 - a1) * (bd - b1)) (b2 - b1) = Inr q
            \<and> between (sint a1) (sint (a1 + q)) (sint a2)"
proof -
  define D where "D = sint a2 - sint a1"
  define a where "a = sint bd - sint b1"
  define b where "b = sint b2 - sint b1"
  have sD: "sint (a2 - a1) = D" and sa: "sint (bd - b1) = a" and sb: "sint (b2 - b1) = b"
    using assms(1-5) by (simp_all add: sint_diff_small D_def a_def b_def)
  have bD: "\<bar>D\<bar> \<le> 32768" and ba: "\<bar>a\<bar> \<le> 32768"
    using assms(1-5) unfolding small_def D_def a_def by auto
  have prod: "sint ((a2 - a1) * (bd - b1)) = D * a"
    using sint_mult_small [of "a2 - a1" "bd - b1"] bD ba by (simp add: sD sa)
  have b0: "b \<noteq> 0" using assms(6) by (simp add: b_def)
  have ab: "\<bar>a\<bar> \<le> \<bar>b\<bar>" "0 \<le> a * b"
    using assms(6,7) unfolding between_def a_def b_def
    by (auto simp: zero_le_mult_iff min_def max_def split: if_splits)
  have "\<bar>D * a\<bar> \<le> 1073741824" using bD ba by (rule abs_mult_bound)
  with c_div_small [of "b2 - b1" "(a2 - a1) * (bd - b1)"] b0
  obtain q where q: "c_div ((a2 - a1) * (bd - b1)) (b2 - b1) = Inr q" "sint q = (D * a) sdiv b"
    by (auto simp: prod sb)
  from sdiv_between [OF b0 ab, of D] have r: "min 0 D \<le> sint q" "sint q \<le> max 0 D"
    by (simp_all add: q(2))
  then have "\<bar>sint q\<bar> \<le> 32768" using bD by auto
  then have "sint (a1 + q) = sint a1 + sint q"
    using assms(1) by (rule sint_add_quot [rotated])
  then show ?thesis
    using q(1) r unfolding between_def D_def by (auto simp: min_def max_def split: if_splits)
qed


subsection \<open>Clipping: outcodes\<close>

lemma code_tests:
  "compute_code s x y AND TOP \<noteq> 0 \<longleftrightarrow> sint (s_ymin s) \<le> sint y \<and> sint (s_ymax s) < sint y"
  "compute_code s x y AND BOTTOM \<noteq> 0 \<longleftrightarrow> sint y < sint (s_ymin s)"
  "compute_code s x y AND RIGHT \<noteq> 0 \<longleftrightarrow> sint (s_xmin s) \<le> sint x \<and> sint (s_xmax s) < sint x"
  "compute_code s x y AND LEFT \<noteq> 0 \<longleftrightarrow> sint x < sint (s_xmin s)"
  by (auto simp add: compute_code_def Let_def word_sless_alt TOP_def BOTTOM_def RIGHT_def LEFT_def)

lemma code_zero:
  "compute_code s x y = 0 \<longleftrightarrow>
     sint (s_xmin s) \<le> sint x \<and> sint x \<le> sint (s_xmax s)
     \<and> sint (s_ymin s) \<le> sint y \<and> sint y \<le> sint (s_ymax s)"
  by (auto simp add: compute_code_def Let_def word_sless_alt TOP_def BOTTOM_def RIGHT_def LEFT_def)

lemma codes_and:
  "compute_code s x y AND compute_code s x' y' \<noteq> 0 \<longleftrightarrow>
     (compute_code s x y AND TOP \<noteq> 0 \<and> compute_code s x' y' AND TOP \<noteq> 0)
   \<or> (compute_code s x y AND BOTTOM \<noteq> 0 \<and> compute_code s x' y' AND BOTTOM \<noteq> 0)
   \<or> (compute_code s x y AND RIGHT \<noteq> 0 \<and> compute_code s x' y' AND RIGHT \<noteq> 0)
   \<or> (compute_code s x y AND LEFT \<noteq> 0 \<and> compute_code s x' y' AND LEFT \<noteq> 0)"
  unfolding compute_code_def Let_def TOP_def BOTTOM_def RIGHT_def LEFT_def
  by (simp split: if_splits)

lemma small_between:
  "small a \<Longrightarrow> small b \<Longrightarrow> between (sint a) (sint m) (sint b) \<Longrightarrow> small m"
  unfolding small_def between_def by (auto simp: min_def max_def split: if_splits)

lemma between_sym: "between p m q \<Longrightarrow> between q m p"
  by (simp add: between_def min.commute max.commute)

lemma intersect_chosen:
  assumes w: "window_small s"
      and sm: "small x1" "small y1" "small x2" "small y2"
      and ch: "(xc, yc, xo, yo) = (x1, y1, x2, y2) \<or> (xc, yc, xo, yo) = (x2, y2, x1, y1)"
      and nz: "compute_code s xc yc \<noteq> 0"
      and dj: "compute_code s xc yc AND compute_code s xo yo = 0"
  shows "\<exists>xi yi. intersect s (compute_code s xc yc) x y x1 y1 x2 y2 = Inr (xi, yi)
           \<and> between (sint xc) (sint xi) (sint xo) \<and> between (sint yc) (sint yi) (sint yo)
           \<and> (if vertical (compute_code s xc yc)
               then sint (s_ymin s) \<le> sint yi \<and> sint yi \<le> sint (s_ymax s)
               else sint (s_xmin s) \<le> sint xi \<and> sint xi \<le> sint (s_xmax s))"
proof -
  let ?c = "compute_code s xc yc"
  have ws: "small (s_xmin s)" "small (s_xmax s)" "small (s_ymin s)" "small (s_ymax s)"
    and wo: "sint (s_xmin s) \<le> sint (s_xmax s)" "sint (s_ymin s) \<le> sint (s_ymax s)"
    using w by (simp_all add: window_small_def word_sle_eq)
  consider (top) "?c AND TOP \<noteq> 0"
    | (bottom) "\<not> ?c AND TOP \<noteq> 0" "?c AND BOTTOM \<noteq> 0"
    | (right) "\<not> ?c AND TOP \<noteq> 0" "\<not> ?c AND BOTTOM \<noteq> 0" "?c AND RIGHT \<noteq> 0"
    | (left) "\<not> ?c AND TOP \<noteq> 0" "\<not> ?c AND BOTTOM \<noteq> 0" "\<not> ?c AND RIGHT \<noteq> 0"
        "?c AND LEFT \<noteq> 0"
  proof -
    have "?c AND TOP \<noteq> 0 \<or> ?c AND BOTTOM \<noteq> 0 \<or> ?c AND RIGHT \<noteq> 0 \<or> ?c AND LEFT \<noteq> 0"
      using nz unfolding code_tests code_zero by linarith
    then show ?thesis using that by blast
  qed
  then show ?thesis
  proof cases
    case top
    have c: "sint (s_ymax s) < sint yc" "sint yo \<le> sint (s_ymax s)"
      using top dj wo codes_and [of s xc yc xo yo] by (auto simp: code_tests)
    then have "sint y1 \<noteq> sint y2" "between (sint y1) (sint (s_ymax s)) (sint y2)"
      using ch by (auto simp: between_def)
    from interpolate [OF sm(1,3,2,4) ws(4) this]
    obtain q where q: "c_div ((x2 - x1) * (s_ymax s - y1)) (y2 - y1) = Inr q"
        "between (sint x1) (sint (x1 + q)) (sint x2)" by blast
    have "between (sint xc) (sint (x1 + q)) (sint xo)"
      using q(2) ch by (auto dest: between_sym)
    moreover have "between (sint yc) (sint (s_ymax s)) (sint yo)"
      using c by (auto simp: between_def)
    ultimately show ?thesis
      using top q(1) wo by (simp add: intersect_def vertical_def)
  next
    case bottom
    have c: "sint yc < sint (s_ymin s)" "sint (s_ymin s) \<le> sint yo"
      using bottom dj wo codes_and [of s xc yc xo yo] by (auto simp: code_tests)
    then have "sint y1 \<noteq> sint y2" "between (sint y1) (sint (s_ymin s)) (sint y2)"
      using ch by (auto simp: between_def)
    from interpolate [OF sm(1,3,2,4) ws(3) this]
    obtain q where q: "c_div ((x2 - x1) * (s_ymin s - y1)) (y2 - y1) = Inr q"
        "between (sint x1) (sint (x1 + q)) (sint x2)" by blast
    have "between (sint xc) (sint (x1 + q)) (sint xo)"
      using q(2) ch by (auto dest: between_sym)
    moreover have "between (sint yc) (sint (s_ymin s)) (sint yo)"
      using c by (auto simp: between_def)
    ultimately show ?thesis
      using bottom q(1) wo by (simp add: intersect_def vertical_def)
  next
    case right
    have c: "sint (s_xmax s) < sint xc" "sint xo \<le> sint (s_xmax s)"
      using right dj wo codes_and [of s xc yc xo yo] by (auto simp: code_tests)
    then have "sint x1 \<noteq> sint x2" "between (sint x1) (sint (s_xmax s)) (sint x2)"
      using ch by (auto simp: between_def)
    from interpolate [OF sm(2,4,1,3) ws(2) this]
    obtain q where q: "c_div ((y2 - y1) * (s_xmax s - x1)) (x2 - x1) = Inr q"
        "between (sint y1) (sint (y1 + q)) (sint y2)" by blast
    have "between (sint yc) (sint (y1 + q)) (sint yo)"
      using q(2) ch by (auto dest: between_sym)
    moreover have "between (sint xc) (sint (s_xmax s)) (sint xo)"
      using c by (auto simp: between_def)
    ultimately show ?thesis
      using right q(1) wo by (simp add: intersect_def vertical_def)
  next
    case left
    have c: "sint xc < sint (s_xmin s)" "sint (s_xmin s) \<le> sint xo"
      using left dj wo codes_and [of s xc yc xo yo] by (auto simp: code_tests)
    then have "sint x1 \<noteq> sint x2" "between (sint x1) (sint (s_xmin s)) (sint x2)"
      using ch by (auto simp: between_def)
    from interpolate [OF sm(2,4,1,3) ws(1) this]
    obtain q where q: "c_div ((y2 - y1) * (s_xmin s - x1)) (x2 - x1) = Inr q"
        "between (sint y1) (sint (y1 + q)) (sint y2)" by blast
    have "between (sint yc) (sint (y1 + q)) (sint yo)"
      using q(2) ch by (auto dest: between_sym)
    moreover have "between (sint xc) (sint (s_xmin s)) (sint xo)"
      using c by (auto simp: between_def)
    ultimately show ?thesis
      using left q(1) wo by (simp add: intersect_def vertical_def)
  qed
qed


subsection \<open>Clipping: every iteration makes progress\<close>

lemma clip_loop_done:
  "clip_done code1 code2 \<Longrightarrow>
   \<exists>r. clip_loop s (x, y, x1, y1, x2, y2, code1, code2) = Some (Inr r)"
  by (subst clip_loop.simps) (auto simp: clip_done_def)

lemma clip_loop_step:
  "\<not> clip_done code1 code2 \<Longrightarrow> clip_iter s (x, y, x1, y1, x2, y2, code1, code2) = Inr v' \<Longrightarrow>
   clip_loop s (x, y, x1, y1, x2, y2, code1, code2) = clip_loop s v'"
  by (subst clip_loop.simps) (auto simp: clip_done_def)

lemma not_vertical_in_range:
  "\<not> vertical (compute_code s x y) \<longleftrightarrow>
     sint (s_ymin s) \<le> sint y \<and> sint y \<le> sint (s_ymax s)"
  unfolding vertical_def code_tests by linarith

lemma clip_iter_progress:
  assumes w: "window_small s"
      and sm: "small x1" "small y1" "small x2" "small y2"
      and nd: "\<not> clip_done (compute_code s x1 y1) (compute_code s x2 y2)"
  shows "\<exists>x' y' x1' y1' x2' y2'.
           clip_iter s (x, y, x1, y1, x2, y2, compute_code s x1 y1, compute_code s x2 y2)
             = Inr (x', y', x1', y1', x2', y2', compute_code s x1' y1', compute_code s x2' y2')
           \<and> small x1' \<and> small y1' \<and> small x2' \<and> small y2'
           \<and> clip_measure (compute_code s x1' y1') (compute_code s x2' y2')
               < clip_measure (compute_code s x1 y1) (compute_code s x2 y2)"
proof -
  let ?c1 = "compute_code s x1 y1" and ?c2 = "compute_code s x2 y2"
  have wo: "sint (s_xmin s) \<le> sint (s_xmax s)" "sint (s_ymin s) \<le> sint (s_ymax s)"
    using w by (simp_all add: window_small_def word_sle_eq)
  have dj: "?c1 AND ?c2 = 0" and nz: "?c1 \<noteq> 0 \<or> ?c2 \<noteq> 0"
    using nd by (auto simp: clip_done_def)
  have m: "clip_measure ?c1 ?c2 = 1 + 3 * rank ?c1 + rank ?c2"
    using nd by (simp add: clip_measure_def)
  show ?thesis
  proof (cases "?c1 = 0")
    case False
    from intersect_chosen [OF w sm _ False dj, of x y]
    obtain xi yi where i: "intersect s ?c1 x y x1 y1 x2 y2 = Inr (xi, yi)"
        "between (sint x1) (sint xi) (sint x2)" "between (sint y1) (sint yi) (sint y2)"
        "if vertical ?c1 then sint (s_ymin s) \<le> sint yi \<and> sint yi \<le> sint (s_ymax s)
         else sint (s_xmin s) \<le> sint xi \<and> sint xi \<le> sint (s_xmax s)"
      by auto
    let ?c = "compute_code s xi yi"
    have it: "clip_iter s (x, y, x1, y1, x2, y2, ?c1, ?c2) = Inr (xi, yi, xi, yi, x2, y2, ?c, ?c2)"
      using False i(1) by (simp add: clip_iter_def)
    have s: "small xi" "small yi"
      using i(2,3) sm by (auto intro: small_between)
    have "clip_measure ?c ?c2 < clip_measure ?c1 ?c2"
    proof (cases "vertical ?c1")
      case True
      then have "\<not> vertical ?c" using i(4) by (simp add: not_vertical_in_range)
      then have "rank ?c \<le> 1" by (simp add: rank_def)
      moreover have "rank ?c1 = 2" using True False by (simp add: rank_def)
      ultimately show ?thesis unfolding m by (simp add: clip_measure_def)
    next
      case nv: False
      then have r1: "rank ?c1 = 1" using False by (simp add: rank_def)
      have y1: "sint (s_ymin s) \<le> sint y1" "sint y1 \<le> sint (s_ymax s)"
        using nv by (simp_all add: not_vertical_in_range)
      have xr: "sint (s_xmin s) \<le> sint xi" "sint xi \<le> sint (s_xmax s)"
        using i(4) nv by simp_all
      show ?thesis
      proof (cases "?c = 0")
        case True
        then show ?thesis unfolding m r1 by (simp add: clip_measure_def rank_def)
      next
        case c: False
        have "?c AND ?c2 \<noteq> 0"
          unfolding codes_and code_tests
          using c xr y1 i(3) wo unfolding code_zero between_def
          by (auto simp: min_def max_def split: if_splits)
        then show ?thesis unfolding m by (simp add: clip_measure_def clip_done_def)
      qed
    qed
    then show ?thesis using it s sm by blast
  next
    case True
    then have c2: "?c2 \<noteq> 0" using nz by simp
    have dj': "?c2 AND ?c1 = 0" using True by simp
    from intersect_chosen [OF w sm _ c2 dj', of x y]
    obtain xi yi where i: "intersect s ?c2 x y x1 y1 x2 y2 = Inr (xi, yi)"
        "between (sint x2) (sint xi) (sint x1)" "between (sint y2) (sint yi) (sint y1)"
        "if vertical ?c2 then sint (s_ymin s) \<le> sint yi \<and> sint yi \<le> sint (s_ymax s)
         else sint (s_xmin s) \<le> sint xi \<and> sint xi \<le> sint (s_xmax s)"
      by auto
    let ?c = "compute_code s xi yi"
    have it: "clip_iter s (x, y, x1, y1, x2, y2, ?c1, ?c2) = Inr (xi, yi, x1, y1, xi, yi, ?c1, ?c)"
      using True c2 i(1) by (simp add: clip_iter_def)
    have s: "small xi" "small yi"
      using i(2,3) sm by (auto intro: small_between)
    have p1: "sint (s_xmin s) \<le> sint x1" "sint x1 \<le> sint (s_xmax s)"
        "sint (s_ymin s) \<le> sint y1" "sint y1 \<le> sint (s_ymax s)"
      using True by (simp_all add: code_zero)
    have "clip_measure ?c1 ?c < clip_measure ?c1 ?c2"
    proof (cases "vertical ?c2")
      case v: True
      then have "\<not> vertical ?c" using i(4) by (simp add: not_vertical_in_range)
      then have "rank ?c \<le> 1" by (simp add: rank_def)
      moreover have "rank ?c2 = 2" using v c2 by (simp add: rank_def)
      ultimately show ?thesis unfolding m by (simp add: clip_measure_def)
    next
      case nv: False
      then have y2: "sint (s_ymin s) \<le> sint y2" "sint y2 \<le> sint (s_ymax s)"
        by (simp_all add: not_vertical_in_range)
      have xr: "sint (s_xmin s) \<le> sint xi" "sint xi \<le> sint (s_xmax s)"
        using i(4) nv by simp_all
      have "?c = 0"
        unfolding code_zero using xr y2 p1 i(3) unfolding between_def
        by (auto simp: min_def max_def split: if_splits)
      then show ?thesis using True unfolding m by (simp add: clip_measure_def clip_done_def)
    qed
    then show ?thesis using it s sm by blast
  qed
qed


subsection \<open>Clipping: a segment that is clipped for ever\<close>

lemma INT_MIN_word: "(2147483648 :: i32) = INT_MIN"
  by (simp add: INT_MIN_def)

lemma cyc_win_fields:
  "s_xmin cyc_win = - 1500000000" "s_xmax cyc_win = 1500000000"
  "s_ymin cyc_win = - 1" "s_ymax cyc_win = 0"
  by (simp_all add: cyc_win_def zvgFrameSetClipWin_def)

lemma cyc_codes:
  "compute_code cyc_win 1500000000 (- 1) = 0"
  "compute_code cyc_win (- 1500000000) 1 = 8"
  "compute_code cyc_win 2147483648 0 = 1"
  by (simp_all add: compute_code_def cyc_win_fields word_sless_alt TOP_def BOTTOM_def LEFT_def RIGHT_def)

lemma cyc_steps:
  "clip_iter cyc_win (x, y, 1500000000, - 1, - 1500000000, 1, 0, 8)
     = Inr (2147483648, 0, 1500000000, - 1, 2147483648, 0, 0, 1)"
  "clip_iter cyc_win (x, y, 1500000000, - 1, 2147483648, 0, 0, 1)
     = Inr (- 1500000000, 1, 1500000000, - 1, - 1500000000, 1, 0, 8)"
  by (simp_all add: clip_iter_def intersect_def c_div_def signed_divide_int_def
       TOP_def BOTTOM_def LEFT_def RIGHT_def INT_MIN_def Let_def cyc_codes cyc_win_fields)

lemma on_cycle_body:
  assumes "on_cycle v"
  shows "\<exists>v'. on_cycle v' \<and>
     (case v of (x, y, x1, y1, x2, y2, code1, code2) \<Rightarrow>
        if code1 = 0 \<and> code2 = 0 then Some (Inr (1, x1, y1, x2, y2))
        else if code1 AND code2 \<noteq> 0 then Some (Inr (0, x1, y1, x2, y2))
        else (case clip_iter cyc_win v of Inl e \<Rightarrow> Some (Inl e) | Inr v' \<Rightarrow> f cyc_win v'))
      = f cyc_win v'"
proof -
  obtain x y x1 y1 x2 y2 code1 code2 where v: "v = (x, y, x1, y1, x2, y2, code1, code2)"
    by (cases v) auto
  from assms consider
      "v = (x, y, 1500000000, - 1, - 1500000000, 1, 0, 8)"
    | "v = (x, y, 1500000000, - 1, 2147483648, 0, 0, 1)"
    unfolding v on_cycle_def by auto
  then show ?thesis
  proof cases
    case 1
    show ?thesis
      unfolding 1
      by (rule exI [of _ "(2147483648, 0, 1500000000, - 1, 2147483648, 0, 0, 1)"])
         (simp add: cyc_steps on_cycle_def)
  next
    case 2
    show ?thesis
      unfolding 2
      by (rule exI [of _ "(- 1500000000, 1, 1500000000, - 1, - 1500000000, 1, 0, 8)"])
         (simp add: cyc_steps on_cycle_def)
  qed
qed

lemma cycle_never_returns:
  assumes "clip_loop s v = Some r"
  shows "s = cyc_win \<longrightarrow> \<not> on_cycle v"
proof (rule clip_loop.raw_induct [where P = "\<lambda>s v r. s = cyc_win \<longrightarrow> \<not> on_cycle v"
        and s = s and v = v and y = r], goal_cases)
  case (1 f s v r)
  show ?case
  proof (intro impI notI)
    assume s: "s = cyc_win" and c: "on_cycle v"
    from on_cycle_body [OF c, of f] obtain v' where v': "on_cycle v'" "f cyc_win v' = Some r"
      using 1(2) unfolding s by auto
    from 1(1) [OF v'(2)] v'(1) show False by simp
  qed
next
  case 2
  show ?case by (rule assms)
qed

text \<open>
  C10, as the specification has it, fails. With the clip window from -1500000000 to
  1500000000 on the x axis and from -1 to 0 on the y axis, the segment from
  (1500000000, -1) to (-1500000000, 1) never leaves the loop: the differences of the
  coordinates wrap around, point 2 alternates between (-2147483648, 0) and
  (-1500000000, 1), and its outcode between LEFT and TOP.
\<close>

theorem C10_clip_loop_counterexample:
  "line_clip cyc_win 1500000000 (- 1) (- 1500000000) 1 = None
   \<and> s_xmin cyc_win \<le>s s_xmax cyc_win \<and> s_ymin cyc_win \<le>s s_ymax cyc_win"
proof -
  have "on_cycle (0, 0, 1500000000, - 1, - 1500000000, 1, 0, 8)"
    by (simp add: on_cycle_def)
  then have "clip_loop cyc_win (0, 0, 1500000000, - 1, - 1500000000, 1, 0, 8) = None"
    using cycle_never_returns by (cases "clip_loop cyc_win (0, 0, 1500000000, - 1, - 1500000000, 1, 0, 8)") auto
  then show ?thesis
    by (simp add: line_clip_def cyc_codes cyc_win_fields word_sle_eq)
qed


subsection \<open>Clipping: termination and division\<close>

lemma clip_loop_terminates:
  assumes "window_small s" "small x1" "small y1" "small x2" "small y2"
  shows "\<exists>r. clip_loop s (x, y, x1, y1, x2, y2, compute_code s x1 y1, compute_code s x2 y2)
           = Some (Inr r)"
  using assms
proof (induction "clip_measure (compute_code s x1 y1) (compute_code s x2 y2)"
        arbitrary: x y x1 y1 x2 y2 rule: less_induct)
  case less
  show ?case
  proof (cases "clip_done (compute_code s x1 y1) (compute_code s x2 y2)")
    case True
    then show ?thesis by (rule clip_loop_done)
  next
    case False
    from clip_iter_progress [OF less.prems False, of x y]
    obtain x' y' x1' y1' x2' y2' where p:
      "clip_iter s (x, y, x1, y1, x2, y2, compute_code s x1 y1, compute_code s x2 y2)
         = Inr (x', y', x1', y1', x2', y2', compute_code s x1' y1', compute_code s x2' y2')"
      "small x1'" "small y1'" "small x2'" "small y2'"
      "clip_measure (compute_code s x1' y1') (compute_code s x2' y2')
         < clip_measure (compute_code s x1 y1) (compute_code s x2 y2)"
      by blast
    from less.hyps [OF p(6) less.prems(1) p(2-5), of x' y']
    show ?thesis by (simp add: clip_loop_step [OF False p(1)])
  qed
qed

lemma c_div_zero_iff: "c_div n d = Inl DivByZero \<longleftrightarrow> d = 0"
  by (simp add: c_div_def)

lemma and_then_Inl_iff:
  "and_then r f = Inl e \<longleftrightarrow> r = Inl e \<or> (\<exists>v. r = Inr v \<and> f v = Inl e)"
  by (cases r) auto

lemma diff_zero_sint: "a - b = 0 \<longleftrightarrow> sint a = sint (b :: i32)"
  by (auto intro: signed_word_eqI)

lemma intersect_no_div0:
  assumes ch: "(xc, yc, xo, yo) = (x1, y1, x2, y2) \<or> (xc, yc, xo, yo) = (x2, y2, x1, y1)"
      and dj: "compute_code s xc yc AND compute_code s xo yo = 0"
  shows "intersect s (compute_code s xc yc) x y x1 y1 x2 y2 \<noteq> Inl DivByZero"
proof -
  let ?c = "compute_code s xc yc"
  have t: "sint yc \<noteq> sint yo" if "?c AND TOP \<noteq> 0"
    using that dj codes_and [of s xc yc xo yo] by (auto simp: code_tests)
  have b: "sint yc \<noteq> sint yo" if "?c AND BOTTOM \<noteq> 0"
    using that dj codes_and [of s xc yc xo yo] by (auto simp: code_tests)
  have r: "sint xc \<noteq> sint xo" if "?c AND RIGHT \<noteq> 0"
    using that dj codes_and [of s xc yc xo yo] by (auto simp: code_tests)
  have l: "sint xc \<noteq> sint xo" if "?c AND LEFT \<noteq> 0"
    using that dj codes_and [of s xc yc xo yo] by (auto simp: code_tests)
  have y: "y2 - y1 \<noteq> 0" if "sint yc \<noteq> sint yo"
    using that ch by (auto simp: diff_zero_sint)
  have x: "x2 - x1 \<noteq> 0" if "sint xc \<noteq> sint xo"
    using that ch by (auto simp: diff_zero_sint)
  show ?thesis
    using t b r l x y
    by (simp add: intersect_def and_then_Inl_iff c_div_zero_iff)
qed

lemma clip_iter_no_div0:
  assumes "\<not> clip_done (compute_code s x1 y1) (compute_code s x2 y2)"
  shows "clip_iter s (x, y, x1, y1, x2, y2, compute_code s x1 y1, compute_code s x2 y2)
           \<noteq> Inl DivByZero"
proof (cases "compute_code s x1 y1 = 0")
  case False
  from assms have "compute_code s x1 y1 AND compute_code s x2 y2 = 0"
    by (simp add: clip_done_def)
  from intersect_no_div0 [OF _ this, of x1 y1 x2 y2 x y] False
  show ?thesis by (auto simp: clip_iter_def and_then_Inl_iff)
next
  case True
  then have "compute_code s x2 y2 AND compute_code s x1 y1 = 0" by simp
  from intersect_no_div0 [OF _ this, of x1 y1 x2 y2 x y] True assms
  show ?thesis by (auto simp: clip_iter_def and_then_Inl_iff clip_done_def)
qed

lemma clip_iter_coded:
  assumes "coded s v" "clip_iter s v = Inr v'"
  shows "coded s v'"
  using assms
  by (cases v) (auto simp: coded_def clip_iter_def Let_def elim!: and_then_InrE split: if_splits)

lemma clip_loop_no_div0:
  assumes "clip_loop s v = Some r"
  shows "coded s v \<longrightarrow> r \<noteq> Inl DivByZero"
proof (rule clip_loop.raw_induct [where P = "\<lambda>s v r. coded s v \<longrightarrow> r \<noteq> Inl DivByZero"
        and s = s and v = v and y = r], goal_cases)
  case (1 f s v r)
  show ?case
  proof
    assume c: "coded s v"
    obtain x y x1 y1 x2 y2 where v:
      "v = (x, y, x1, y1, x2, y2, compute_code s x1 y1, compute_code s x2 y2)"
      using c by (cases v) (auto simp: coded_def)
    show "r \<noteq> Inl DivByZero"
    proof (cases "clip_done (compute_code s x1 y1) (compute_code s x2 y2)")
      case True
      then show ?thesis using 1(2) unfolding v by (auto simp: clip_done_def split: if_splits)
    next
      case False
      note nd = clip_iter_no_div0 [OF False, of x y]
      show ?thesis
      proof (cases "clip_iter s v")
        case (Inl e)
        then show ?thesis using 1(2) False nd unfolding v by (auto simp: clip_done_def)
      next
        case (Inr v')
        then have "f s v' = Some r" using 1(2) False unfolding v by (auto simp: clip_done_def)
        moreover have "coded s v'" using c Inr by (rule clip_iter_coded)
        ultimately show ?thesis using 1(1) by blast
      qed
    qed
  qed
next
  case 2
  show ?case by (rule assms)
qed

text \<open>
  C10, as the code has it. For every clip window and every segment, no iteration of the
  loop divides by zero. When the bounds of the window and the coordinates of the segment
  are at most 16384 in absolute value, with \<open>xmin \<le> xmax\<close> and \<open>ymin \<le> ymax\<close>, the loop
  terminates, without a fault.
\<close>

theorem C10_clip_terminates_without_overflow:
  "line_clip s x1 y1 x2 y2 \<noteq> Some (Inl DivByZero)
   \<and> (window_small s \<and> small x1 \<and> small y1 \<and> small x2 \<and> small y2
        \<longrightarrow> (\<exists>r. line_clip s x1 y1 x2 y2 = Some (Inr r)))"
proof
  show "line_clip s x1 y1 x2 y2 \<noteq> Some (Inl DivByZero)"
    using clip_loop_no_div0 [of s "(0, 0, x1, y1, x2, y2, compute_code s x1 y1, compute_code s x2 y2)"]
    by (auto simp: line_clip_def coded_def)
  show "window_small s \<and> small x1 \<and> small y1 \<and> small x2 \<and> small y2
        \<longrightarrow> (\<exists>r. line_clip s x1 y1 x2 y2 = Some (Inr r))"
    using clip_loop_terminates [of s x1 y1 x2 y2 0 0] by (simp add: line_clip_def)
qed

text \<open>An instance: the segment (0, 0) to (500, 1500) is cut at the top, (333, 1000).\<close>

theorem C10_clip_terminates_without_overflow_witness:
  "window_small (st_open 0 0 1000 1000) \<and> small 0 \<and> small 500 \<and> small 1500
   \<and> line_clip (st_open 0 0 1000 1000) 0 0 500 1500 = Some (Inr (1, 0, 0, 333, 1000))
   \<and> line_clip (st_open 0 0 1000 1000) 0 0 500 1500 \<noteq> Some (Inl DivByZero)"
proof -
  have w: "window_small (st_open 0 0 1000 1000)" "small 0" "small 500" "small 1500"
    by (simp_all add: window_small_def small_def st_open_fields word_sle_eq)
  have "line_clip (st_open 0 0 1000 1000) 0 0 500 1500 = Some (Inr (1, 0, 0, 333, 1000))"
    by (simp add: line_clip_def clip_loop.simps compute_code_def st_open_fields word_sless_alt
          clip_iter_def intersect_def TOP_def LEFT_def RIGHT_def BOTTOM_def c_div_def INT_MIN_def
          signed_divide_int_def)
  then show ?thesis
    using w C10_clip_terminates_without_overflow [of "st_open 0 0 1000 1000" 0 0 500 1500]
    by simp
qed


subsection \<open>Clipping: one iteration against the specification\<close>

lemma c_div_Inr: "c_div n d = Inr q \<Longrightarrow> q = trunc_quot n d"
  by (auto simp: c_div_def trunc_quot_def signed_divide_int_def split: if_splits)

lemma intersect_spec:
  assumes "intersect s code x y x1 y1 x2 y2 = Inr p" "spec_boundary code = Some b"
  shows "p = spec_intersection s b x1 y1 x2 y2"
  using assms
  by (cases b)
     (auto simp: intersect_def spec_boundary_def split: if_splits
           elim!: and_then_InrE dest!: c_div_Inr)

lemma spec_boundary_code:
  assumes "compute_code s xc yc \<noteq> 0"
  shows "\<exists>b. spec_boundary (compute_code s xc yc) = Some b"
proof -
  let ?c = "compute_code s xc yc"
  have "?c AND TOP \<noteq> 0 \<or> ?c AND BOTTOM \<noteq> 0 \<or> ?c AND RIGHT \<noteq> 0 \<or> ?c AND LEFT \<noteq> 0"
    using assms unfolding code_tests code_zero by linarith
  then show ?thesis by (auto simp: spec_boundary_def)
qed

text \<open>
  C8. An iteration of the loop that returns (its division does not trap) replaces the
  point and computes the intersection as the specification words it: point 1 when its
  outcode is not zero, else point 2; the first boundary in the order TOP, BOTTOM, RIGHT,
  LEFT that the outcode names; the interpolation with the truncated quotient.
\<close>

theorem C8_clip_iteration:
  assumes "\<not> clip_done (compute_code s x1 y1) (compute_code s x2 y2)"
      and "clip_iter s (x, y, x1, y1, x2, y2, compute_code s x1 y1, compute_code s x2 y2) = Inr v'"
  shows "spec_replace s x1 y1 x2 y2 (compute_code s x1 y1) (compute_code s x2 y2) = Some v'"
proof -
  let ?c1 = "compute_code s x1 y1" and ?c2 = "compute_code s x2 y2"
  let ?co = "if ?c1 \<noteq> 0 then ?c1 else ?c2"
  have nz: "?co \<noteq> 0" using assms(1) by (auto simp: clip_done_def)
  then obtain b where b: "spec_boundary ?co = Some b"
    using spec_boundary_code [of s x1 y1] spec_boundary_code [of s x2 y2] by (auto split: if_splits)
  obtain p where p: "intersect s ?co x y x1 y1 x2 y2 = Inr p"
    using assms(2) by (auto simp: clip_iter_def Let_def elim!: and_then_InrE)
  have pe: "p = spec_intersection s b x1 y1 x2 y2"
    using p b by (rule intersect_spec)
  obtain xi yi where xy: "spec_intersection s b x1 y1 x2 y2 = (xi, yi)"
    by (cases "spec_intersection s b x1 y1 x2 y2")
  show ?thesis
  proof (cases "?c1 = 0")
    case True
    then have "?c2 \<noteq> 0" using nz by simp
    then show ?thesis
      using assms(2) True p b pe xy by (simp add: clip_iter_def spec_replace_def)
  next
    case False
    then show ?thesis
      using assms(2) p b pe xy by (simp add: clip_iter_def spec_replace_def)
  qed
qed

text \<open>An instance: point 2 of the segment (0, 0) to (500, 1500) is above the window.\<close>

theorem C8_clip_iteration_witness:
  "\<not> clip_done (compute_code (st_open 0 0 1000 1000) 0 0)
        (compute_code (st_open 0 0 1000 1000) 500 1500)
   \<and> clip_iter (st_open 0 0 1000 1000)
        (0, 0, 0, 0, 500, 1500, compute_code (st_open 0 0 1000 1000) 0 0,
         compute_code (st_open 0 0 1000 1000) 500 1500)
       = Inr (333, 1000, 0, 0, 333, 1000, 0, 0)
   \<and> spec_replace (st_open 0 0 1000 1000) 0 0 500 1500
        (compute_code (st_open 0 0 1000 1000) 0 0)
        (compute_code (st_open 0 0 1000 1000) 500 1500)
       = Some (333, 1000, 0, 0, 333, 1000, 0, 0)"
proof -
  have c: "compute_code (st_open 0 0 1000 1000) 0 0 = 0"
      "compute_code (st_open 0 0 1000 1000) 500 1500 = 8"
      "compute_code (st_open 0 0 1000 1000) 333 1000 = 0"
    by (simp_all add: compute_code_def st_open_fields word_sless_alt TOP_def LEFT_def RIGHT_def
          BOTTOM_def)
  have 1: "\<not> clip_done (compute_code (st_open 0 0 1000 1000) 0 0)
        (compute_code (st_open 0 0 1000 1000) 500 1500)"
    by (simp add: c clip_done_def)
  have 2: "clip_iter (st_open 0 0 1000 1000)
        (0, 0, 0, 0, 500, 1500, compute_code (st_open 0 0 1000 1000) 0 0,
         compute_code (st_open 0 0 1000 1000) 500 1500)
       = Inr (333, 1000, 0, 0, 333, 1000, 0, 0)"
    by (simp add: c clip_iter_def intersect_def st_open_fields TOP_def c_div_def INT_MIN_def
          signed_divide_int_def)
  show ?thesis
    using 1 2 C8_clip_iteration [OF 1 2] by simp
qed

end
